theory Spec2Isabelle
  imports Complex_Main "HOL-Library.Char_ord"
begin

section \<open>JavaScript strings and the regular expressions of the evaluators\<close>

text \<open>
  Strings are lists of code units below 256 (\<^typ>\<open>char\<close>).  An optional field of a
  JavaScript object is an \<^typ>\<open>'a option\<close>; \<open>a || b\<close> on strings takes \<open>b\<close> when \<open>a\<close> is
  \<open>undefined\<close> or the empty string.
\<close>

definition truthy :: "string option \<Rightarrow> bool" where
  "truthy a = (case a of None \<Rightarrow> False | Some s \<Rightarrow> s \<noteq> [])"

definition js_or :: "string option \<Rightarrow> string option \<Rightarrow> string option" where
  "js_or a b = (if truthy a then a else b)"

definition or_empty :: "string option \<Rightarrow> string" where
  "or_empty a = (case a of None \<Rightarrow> [] | Some s \<Rightarrow> s)"

text \<open>
  The regular expressions of the source use literals, character classes, \<open>+\<close> and \<open>*\<close> on
  a single class, \<open>^\<close>, \<open>$\<close>, \<open>\b\<close> and negative lookahead.  \<open>RegExp.test\<close> asks whether
  some position of the text starts a match, so the matcher is the plain backtracking
  search: \<open>rx_at\<close> matches a pattern at the current position (the previous code unit is
  kept for \<open>^\<close> and \<open>\b\<close>), \<open>rx_search\<close> tries every position.
\<close>

datatype rx_atom =
    Cls "char \<Rightarrow> bool"
  | ClsStar "char \<Rightarrow> bool"
  | ClsPlus "char \<Rightarrow> bool"
  | Bol
  | Eol
  | WordB
  | NegAhead "rx_atom list"

definition isWordChar :: "char \<Rightarrow> bool" where
  "isWordChar c = ((CHR ''a'' \<le> c \<and> c \<le> CHR ''z'') \<or> (CHR ''A'' \<le> c \<and> c \<le> CHR ''Z'')
     \<or> (CHR ''0'' \<le> c \<and> c \<le> CHR ''9'') \<or> c = CHR ''_'')"

definition isSpace :: "char \<Rightarrow> bool" where
  "isSpace c = (c \<in> set [CHR 0x09, CHR 0x0A, CHR 0x0B, CHR 0x0C, CHR 0x0D, CHR 0x20, CHR 0xA0])"

definition isDot :: "char \<Rightarrow> bool" where
  "isDot c = (c \<noteq> CHR 0x0A \<and> c \<noteq> CHR 0x0D)"

definition lowerAscii :: "char \<Rightarrow> char" where
  "lowerAscii c =
     (case map_of (zip ''ABCDEFGHIJKLMNOPQRSTUVWXYZ'' ''abcdefghijklmnopqrstuvwxyz'') c of
        None \<Rightarrow> c | Some l \<Rightarrow> l)"

fun rx_at :: "rx_atom list \<Rightarrow> char option \<Rightarrow> string \<Rightarrow> bool" where
  "rx_at [] p s = True"
| "rx_at (Cls c # r) p [] = False"
| "rx_at (Cls c # r) p (x # xs) = (c x \<and> rx_at r (Some x) xs)"
| "rx_at (ClsStar c # r) p [] = rx_at r p []"
| "rx_at (ClsStar c # r) p (x # xs) =
     ((c x \<and> rx_at (ClsStar c # r) (Some x) xs) \<or> rx_at r p (x # xs))"
| "rx_at (ClsPlus c # r) p [] = False"
| "rx_at (ClsPlus c # r) p (x # xs) = (c x \<and> rx_at (ClsStar c # r) (Some x) xs)"
| "rx_at (Bol # r) p s = (p = None \<and> rx_at r p s)"
| "rx_at (Eol # r) p s = (s = [] \<and> rx_at r p s)"
| "rx_at (WordB # r) p s =
     (((case p of None \<Rightarrow> False | Some a \<Rightarrow> isWordChar a)
        \<noteq> (case s of [] \<Rightarrow> False | x # _ \<Rightarrow> isWordChar x)) \<and> rx_at r p s)"
| "rx_at (NegAhead q # r) p s = (\<not> rx_at q p s \<and> rx_at r p s)"

fun rx_search :: "rx_atom list \<Rightarrow> char option \<Rightarrow> string \<Rightarrow> bool" where
  "rx_search ps p [] = rx_at ps p []"
| "rx_search ps p (x # xs) = (rx_at ps p (x # xs) \<or> rx_search ps (Some x) xs)"

definition rx_test :: "rx_atom list \<Rightarrow> string \<Rightarrow> bool" where
  "rx_test ps s = rx_search ps None s"

text \<open>A literal, and a literal under the \<open>i\<close> flag (ASCII letters match both cases).\<close>

definition lit :: "string \<Rightarrow> rx_atom list" where
  "lit s = map (\<lambda>x. Cls (\<lambda>c. c = x)) s"

definition liti :: "string \<Rightarrow> rx_atom list" where
  "liti s = map (\<lambda>x. Cls (\<lambda>c. lowerAscii c = lowerAscii x)) s"

text \<open>A phrase under the \<open>i\<close> flag whose words are separated by \<open>\s+\<close>.\<close>

fun phrase :: "string list \<Rightarrow> rx_atom list" where
  "phrase [] = []"
| "phrase [w] = liti w"
| "phrase (w # ws) = liti w @ [ClsPlus isSpace] @ phrase ws"

section \<open>Timeline model\<close>

text \<open>
  \<open>TimelineEvent\<close> has a numeric \<open>timestamp\<close> (milliseconds, an integer), a \<open>type\<close> and a
  loosely typed \<open>data\<close>.  Of \<open>data\<close> the evaluators read \<open>tool\<close>, \<open>input\<close>, \<open>output\<close>,
  \<open>text\<close>, \<open>content\<close>, \<open>state.input\<close>, \<open>filePath\<close> and \<open>path\<close>; of an input they read
  \<open>filePath\<close>, \<open>path\<close>, \<open>pattern\<close> and \<open>command\<close>.
\<close>

record tool_input =
  i_filePath :: "string option"
  i_path :: "string option"
  i_pattern :: "string option"
  i_command :: "string option"

record event_data =
  d_tool :: "string option"
  d_input :: "tool_input option"
  d_output :: "string option"
  d_text :: "string option"
  d_content :: "string option"
  d_state_input :: "tool_input option"
  d_filePath :: "string option"
  d_path :: "string option"

record timeline_event =
  timestamp :: int
  ev_type :: string
  ev_data :: "event_data option"

text \<open>\<open>event.data?.tool\<close>, \<open>event.data?.input\<close> and \<open>msg.data?.text || msg.data?.content || ''\<close>.\<close>

definition tool_of :: "timeline_event \<Rightarrow> string option" where
  "tool_of e = (case ev_data e of None \<Rightarrow> None | Some d \<Rightarrow> d_tool d)"

definition input_of :: "timeline_event \<Rightarrow> tool_input option" where
  "input_of e = (case ev_data e of None \<Rightarrow> None | Some d \<Rightarrow> d_input d)"

definition output_of :: "timeline_event \<Rightarrow> string option" where
  "output_of e = (case ev_data e of None \<Rightarrow> None | Some d \<Rightarrow> d_output d)"

definition message_text :: "timeline_event \<Rightarrow> string" where
  "message_text e =
     (case ev_data e of None \<Rightarrow> [] | Some d \<Rightarrow> or_empty (js_or (d_text d) (d_content d)))"

text \<open>
  A thrown error is a value: a function that may throw returns \<open>Inl\<close> of the error, and a
  sequence of statements stops at the first one.  \<open>foldE\<close> is a loop whose body may throw.
\<close>

datatype js_error = RangeError

definition bindE :: "'e + 'a \<Rightarrow> ('a \<Rightarrow> 'e + 'b) \<Rightarrow> 'e + 'b" where
  "bindE m f = (case m of Inl e \<Rightarrow> Inl e | Inr a \<Rightarrow> f a)"

fun foldE :: "('b \<Rightarrow> 'a \<Rightarrow> 'e + 'b) \<Rightarrow> 'b \<Rightarrow> 'a list \<Rightarrow> 'e + 'b" where
  "foldE f acc [] = Inr acc"
| "foldE f acc (x # xs) = (case f acc x of Inl e \<Rightarrow> Inl e | Inr acc' \<Rightarrow> foldE f acc' xs)"

text \<open>
  \<open>new Date(ts).toISOString()\<close> throws a \<open>RangeError\<close> when \<open>ts\<close> is not a time value, that
  is, when it is more than 8.64e15 milliseconds from the epoch.  The evaluators format
  dates only for their evidence texts, which are left out below; what is kept of the call
  is whether it throws.
\<close>

definition validTimeValue :: "int \<Rightarrow> bool" where
  "validTimeValue ts = (- 8640000000000000 \<le> ts \<and> ts \<le> 8640000000000000)"

definition toISOString :: "int \<Rightarrow> js_error + unit" where
  "toISOString ts = (if validTimeValue ts then Inr () else Inl RangeError)"

text \<open>A number in a template string.\<close>

function showNat :: "nat \<Rightarrow> string" where
  "showNat n =
     (if n < 10 then [''0123456789'' ! n] else showNat (n div 10) @ [''0123456789'' ! (n mod 10)])"
  by pat_completeness auto
termination
  by (relation "measure id") auto

definition showInt :: "int \<Rightarrow> string" where
  "showInt i = (if i < 0 then CHR ''-'' # showNat (nat (- i)) else showNat (nat i))"

definition showOpt :: "string option \<Rightarrow> string" where
  "showOpt a = (case a of None \<Rightarrow> ''undefined'' | Some s \<Rightarrow> s)"

section \<open>BaseEvaluator\<close>

datatype severity = Error | Warning | Info

text \<open>
  A violation keeps its type, severity, message and timestamp; a check its name, verdict
  and weight; an evidence item its type and optional timestamp.  The free-form evidence
  payloads and descriptions (formatted dates, echoed inputs) are left out: nothing below
  reads them.
\<close>

record violation =
  v_type :: string
  v_severity :: severity
  v_message :: string
  v_timestamp :: int

record check =
  c_name :: string
  c_passed :: bool
  c_weight :: rat

record evidence =
  e_type :: string
  e_timestamp :: "int option"

definition getToolCalls :: "timeline_event list \<Rightarrow> timeline_event list" where
  "getToolCalls timeline = filter (\<lambda>event. ev_type event = ''tool_call'') timeline"

definition getToolCallsByName :: "timeline_event list \<Rightarrow> string \<Rightarrow> timeline_event list" where
  "getToolCallsByName timeline toolName =
     filter (\<lambda>event. tool_of event = Some toolName) (getToolCalls timeline)"

definition executionToolNames :: "string list" where
  "executionToolNames = [''bash'', ''write'', ''edit'', ''task'']"

definition isExecutionTool :: "timeline_event \<Rightarrow> bool" where
  "isExecutionTool event =
     (case tool_of event of None \<Rightarrow> False | Some t \<Rightarrow> t \<in> set executionToolNames)"

definition getExecutionTools :: "timeline_event list \<Rightarrow> timeline_event list" where
  "getExecutionTools timeline = filter isExecutionTool (getToolCalls timeline)"

definition readToolNames :: "string list" where
  "readToolNames = [''read'', ''glob'', ''grep'', ''list'']"

definition getReadTools :: "timeline_event list \<Rightarrow> timeline_event list" where
  "getReadTools timeline =
     filter (\<lambda>event. case tool_of event of None \<Rightarrow> False | Some t \<Rightarrow> t \<in> set readToolNames)
       (getToolCalls timeline)"

definition isAssistantMessage :: "timeline_event \<Rightarrow> bool" where
  "isAssistantMessage event = (ev_type event = ''assistant_message'' \<or> ev_type event = ''text'')"

definition getAssistantMessages :: "timeline_event list \<Rightarrow> timeline_event list" where
  "getAssistantMessages timeline = filter isAssistantMessage timeline"

definition getUserMessages :: "timeline_event list \<Rightarrow> timeline_event list" where
  "getUserMessages timeline = filter (\<lambda>event. ev_type event = ''user_message'') timeline"

definition getEventsBefore :: "timeline_event list \<Rightarrow> int \<Rightarrow> timeline_event list" where
  "getEventsBefore timeline ts = filter (\<lambda>event. timestamp event < ts) timeline"

definition approvalPatterns :: "rx_atom list list" where
  "approvalPatterns =
     [phrase [''may'', ''i''],
      phrase [''should'', ''i''],
      phrase [''can'', ''i'', ''proceed''],
      phrase [''would'', ''you'', ''like'', ''me'', ''to''],
      phrase [''do'', ''you'', ''want'', ''me'', ''to''],
      phrase [''shall'', ''i''],
      phrase [''is'', ''it'', ''ok'', ''to''],
      phrase [''is'', ''it'', ''okay'', ''to''],
      phrase [''permission'', ''to''],
      phrase [''approve''],
      phrase [''confirm'']]"

definition containsApprovalLanguage :: "string \<Rightarrow> bool" where
  "containsApprovalLanguage txt = list_ex (\<lambda>pattern. rx_test pattern txt) approvalPatterns"

text \<open>
  \<open>extractFilePaths\<close> collects the matches of \<open>/(?:\/[\w.-]+)+(?:\.[\w]+)?/g\<close>, without
  duplicates.  A match is a longest run of segments, each a slash and a longest non-empty
  run of \<open>[\w.-]\<close>; the optional extension never adds to it, since the run before it already
  took every dot.  The scan keeps the match in progress: \<open>InRun m\<close> after a character of
  a segment, \<open>AfterSlash m\<close> after a slash that may start the next segment.
\<close>

definition isPathChar :: "char \<Rightarrow> bool" where
  "isPathChar c = (isWordChar c \<or> c = CHR ''.'' \<or> c = CHR ''-'')"

datatype scan_state = Outside | AfterSlash string | InRun string

definition emitMatch :: "string \<Rightarrow> string list" where
  "emitMatch m = (if m = [] then [] else [m])"

fun scanPaths :: "scan_state \<Rightarrow> string \<Rightarrow> string list" where
  "scanPaths Outside [] = []"
| "scanPaths (AfterSlash m) [] = emitMatch m"
| "scanPaths (InRun m) [] = [m]"
| "scanPaths Outside (c # cs) =
     (if c = CHR ''/'' then scanPaths (AfterSlash []) cs else scanPaths Outside cs)"
| "scanPaths (AfterSlash m) (c # cs) =
     (if isPathChar c then scanPaths (InRun (m @ [CHR ''/'', c])) cs
      else emitMatch m @
        (if c = CHR ''/'' then scanPaths (AfterSlash []) cs else scanPaths Outside cs))"
| "scanPaths (InRun m) (c # cs) =
     (if isPathChar c then scanPaths (InRun (m @ [c])) cs
      else if c = CHR ''/'' then scanPaths (AfterSlash m) cs
      else m # scanPaths Outside cs)"

text \<open>A JavaScript \<open>Set\<close> of strings, in insertion order.\<close>

definition setAdd :: "string list \<Rightarrow> string \<Rightarrow> string list" where
  "setAdd files f = (if f \<in> set files then files else files @ [f])"

definition extractFilePaths :: "string \<Rightarrow> string list" where
  "extractFilePaths txt = foldl setAdd [] (scanPaths Outside txt)"

text \<open>\<open>JSON.stringify\<close> of a string: quoted, with the escapes of the standard.\<close>

definition hexDigit :: "nat \<Rightarrow> char" where
  "hexDigit n = ''0123456789abcdef'' ! (n mod 16)"

definition jsonEscape :: "char \<Rightarrow> string" where
  "jsonEscape c =
     (if c = CHR 0x22 then [CHR 0x5C, CHR 0x22]
      else if c = CHR 0x5C then [CHR 0x5C, CHR 0x5C]
      else if c = CHR 0x08 then [CHR 0x5C, CHR ''b'']
      else if c = CHR 0x0C then [CHR 0x5C, CHR ''f'']
      else if c = CHR 0x0A then [CHR 0x5C, CHR ''n'']
      else if c = CHR 0x0D then [CHR 0x5C, CHR ''r'']
      else if c = CHR 0x09 then [CHR 0x5C, CHR ''t'']
      else if c < CHR 0x20
        then [CHR 0x5C, CHR ''u'', CHR ''0'', CHR ''0'',
              hexDigit (of_char c div 16), hexDigit (of_char c)]
      else [c])"

definition jsonStringify :: "string \<Rightarrow> string" where
  "jsonStringify s = [CHR 0x22] @ concat (map jsonEscape s) @ [CHR 0x22]"

text \<open>\<open>countAffectedFiles\<close>: one step of its loop, then the size of the set.\<close>

definition addIfTruthy :: "string option \<Rightarrow> string list \<Rightarrow> string list" where
  "addIfTruthy a files = (if truthy a then setAdd files (or_empty a) else files)"

definition affectedStep :: "string list \<Rightarrow> timeline_event \<Rightarrow> string list" where
  "affectedStep files call =
     (case input_of call of
        None \<Rightarrow> files
      | Some inp \<Rightarrow>
          (let files1 = addIfTruthy (i_filePath inp) files;
               files2 = addIfTruthy (i_path inp) files1
           in if truthy (i_pattern inp) \<and> truthy (output_of call)
              then foldl setAdd files2 (extractFilePaths (jsonStringify (or_empty (output_of call))))
              else files2))"

definition countAffectedFiles :: "timeline_event list \<Rightarrow> nat" where
  "countAffectedFiles toolCalls = length (foldl affectedStep [] toolCalls)"


definition createViolation :: "string \<Rightarrow> severity \<Rightarrow> string \<Rightarrow> int \<Rightarrow> violation" where
  "createViolation ty sev msg ts =
     \<lparr>v_type = ty, v_severity = sev, v_message = msg, v_timestamp = ts\<rparr>"

definition createEvidence :: "string \<Rightarrow> int option \<Rightarrow> evidence" where
  "createEvidence ty ts = \<lparr>e_type = ty, e_timestamp = ts\<rparr>"

text \<open>
  JavaScript numbers are IEEE doubles.  A finite double is taken as the rational it denotes,
  and an arithmetic operation rounds its exact result to the nearest double, ties to the
  even mantissa (\<open>toDouble\<close>; 53 bits of mantissa, gradual underflow below \<open>2^-1022\<close>).
  Overflow to \<open>Infinity\<close>, and \<open>NaN\<close>, are outside the model.
\<close>

definition pow2 :: "int \<Rightarrow> rat" where
  "pow2 k = (if k \<ge> 0 then 2 ^ nat k else 1 / 2 ^ nat (- k))"

function bitLength :: "int \<Rightarrow> int" where
  "bitLength n = (if n \<le> 0 then 0 else 1 + bitLength (n div 2))"
  by pat_completeness auto
termination
  by (relation "measure nat") auto

text \<open>The binary exponent of a positive rational \<open>a\<close>: \<open>2^e \<le> a < 2^(e+1)\<close>.\<close>

definition exponentOf :: "rat \<Rightarrow> int" where
  "exponentOf a =
     (let e = bitLength (fst (quotient_of a)) - bitLength (snd (quotient_of a))
      in if pow2 e \<le> a then e else e - 1)"

definition toDouble :: "rat \<Rightarrow> rat" where
  "toDouble x =
     (if x = 0 then 0
      else let a = \<bar>x\<bar>;
               q = max (exponentOf a) (- 1022) - 52;
               m = a / pow2 q;
               f = \<lfloor>m\<rfloor>;
               r = m - of_int f;
               g = (if r < 1 / 2 then f else if r > 1 / 2 then f + 1
                    else if even f then f else f + 1)
           in sgn x * of_int g * pow2 q)"

text \<open>
  \<open>calculateScore\<close>: the sums, products and the quotient are double operations;
  \<open>Math.round\<close> takes the double to the nearest integer, a half upwards.
\<close>

definition calculateScore :: "check list \<Rightarrow> int" where
  "calculateScore checks =
     (if length checks = 0 then 100
      else let totalWeight = foldl (\<lambda>sum c. toDouble (sum + c_weight c)) 0 checks in
        if totalWeight = 0 then 100
        else let weightedScore =
                   foldl (\<lambda>sum c. toDouble (sum
                            + toDouble ((if c_passed c then 100 else 0) * c_weight c))) 0 checks
             in \<lfloor>toDouble (weightedScore / totalWeight) + 1 / 2\<rfloor>)"

record 'm evaluation_result =
  evaluator :: string
  passed :: bool
  score :: int
  violations :: "violation list"
  evidence_list :: "evidence list"
  metadata :: 'm

definition buildResult ::
  "string \<Rightarrow> check list \<Rightarrow> violation list \<Rightarrow> evidence list \<Rightarrow> 'm \<Rightarrow> 'm evaluation_result" where
  "buildResult evaluatorName checks vs ev meta =
     (let score = calculateScore checks;
          passed = (length (filter (\<lambda>v. v_severity v = Error) vs) = 0)
      in \<lparr>evaluator = evaluatorName, passed = passed, score = score,
          violations = vs, evidence_list = ev, metadata = meta\<rparr>)"

section \<open>ApprovalGateEvaluator\<close>

record approval_gate_check =
  approvalRequested :: bool
  approvalTimestamp :: "int option"
  executionTimestamp :: int
  timeDiffMs :: "int option"
  toolName :: "string option"

text \<open>
  \<open>checkApprovalForTool\<close> formats, for the evidence of the check, the date of the approval
  message (when one is found) and then the date of the tool call.
\<close>

definition checkApprovalForTool ::
  "timeline_event \<Rightarrow> timeline_event list \<Rightarrow> bool \<Rightarrow> js_error + approval_gate_check" where
  "checkApprovalForTool toolCall timeline skipApproval =
     (let priorEvents = getEventsBefore timeline (timestamp toolCall);
          priorMessages = filter (\<lambda>e. ev_type e = ''text'' \<or> ev_type e = ''assistant_message'')
                            priorEvents
      in case find (\<lambda>msg. containsApprovalLanguage (message_text msg)) (rev priorMessages) of
           Some msg \<Rightarrow>
             bindE (toISOString (timestamp msg)) (\<lambda>_.
             bindE (toISOString (timestamp toolCall)) (\<lambda>_.
               Inr \<lparr>approvalRequested = True,
                    approvalTimestamp = Some (timestamp msg),
                    executionTimestamp = timestamp toolCall,
                    timeDiffMs = Some (timestamp toolCall - timestamp msg),
                    toolName = tool_of toolCall\<rparr>))
         | None \<Rightarrow>
             bindE (toISOString (timestamp toolCall)) (\<lambda>_.
               Inr \<lparr>approvalRequested = False,
                    approvalTimestamp = None,
                    executionTimestamp = timestamp toolCall,
                    timeDiffMs = None,
                    toolName = tool_of toolCall\<rparr>))"

definition approvalSkipPatterns :: "rx_atom list list" where
  "approvalSkipPatterns =
     [phrase [''just'', ''do'', ''it''],
      phrase [''no'', ''need'', ''to'', ''ask''],
      phrase [''don'' @ [CHR 0x27] @ ''t'', ''ask''],
      phrase [''skip'', ''approval''],
      phrase [''without'', ''asking''],
      phrase [''proceed'', ''without''],
      phrase [''go'', ''ahead'']]"

definition shouldSkipApproval :: "timeline_event list \<Rightarrow> bool" where
  "shouldSkipApproval userMessages =
     list_ex (\<lambda>msg. list_ex (\<lambda>pattern. rx_test pattern (message_text msg)) approvalSkipPatterns)
       userMessages"

text \<open>The accumulators of \<open>evaluate\<close> and the body of its loop over the execution tools.\<close>

record approval_acc =
  ag_checks :: "check list"
  ag_violations :: "violation list"
  ag_evidence :: "evidence list"
  ag_approvalChecks :: "approval_gate_check list"

definition missingApprovalViolation :: "timeline_event \<Rightarrow> violation" where
  "missingApprovalViolation toolCall =
     createViolation ''missing-approval'' Error
       (''Execution tool '' @ [CHR 0x27] @ showOpt (tool_of toolCall) @ [CHR 0x27]
          @ '' called without requesting approval'')
       (timestamp toolCall)"

text \<open>
  One iteration: the check of the call (which may throw), the check result, the violation,
  and the \<open>tool-execution\<close> evidence, whose description formats the date of the call.
\<close>

definition approvalStep ::
  "timeline_event list \<Rightarrow> bool \<Rightarrow> nat \<Rightarrow> approval_acc \<Rightarrow> timeline_event
     \<Rightarrow> js_error + approval_acc" where
  "approvalStep timeline skipApproval n acc toolCall =
     bindE (checkApprovalForTool toolCall timeline skipApproval) (\<lambda>chk.
     bindE (toISOString (timestamp toolCall)) (\<lambda>_.
       Inr \<lparr>ag_checks = ag_checks acc @
              [\<lparr>c_name = ''approval-'' @ showOpt (tool_of toolCall) @ ''-''
                           @ showInt (timestamp toolCall),
                c_passed = (approvalRequested chk \<or> skipApproval),
                c_weight = toDouble (100 / of_nat n)\<rparr>],
            ag_violations = ag_violations acc @
              (if \<not> approvalRequested chk \<and> \<not> skipApproval
               then [missingApprovalViolation toolCall]
               else []),
            ag_evidence = ag_evidence acc @
              [createEvidence ''tool-execution'' (Some (timestamp toolCall))],
            ag_approvalChecks = ag_approvalChecks acc @ [chk]\<rparr>))"

definition approvalLoop :: "timeline_event list \<Rightarrow> js_error + approval_acc" where
  "approvalLoop timeline =
     (let executionTools = getExecutionTools timeline;
          skipApproval = shouldSkipApproval (getUserMessages timeline)
      in foldE (approvalStep timeline skipApproval (length executionTools))
           \<lparr>ag_checks = [], ag_violations = [],
            ag_evidence = (if skipApproval then [createEvidence ''approval-skip'' None] else []),
            ag_approvalChecks = []\<rparr>
           executionTools)"

record approval_metadata =
  am_executionToolCount :: nat
  am_approvalChecks :: "approval_gate_check list"
  am_skipApproval :: "bool option"

text \<open>\<open>evaluate\<close> returns a result, or throws what its loop throws.\<close>

definition approvalGate_evaluate ::
  "timeline_event list \<Rightarrow> js_error + approval_metadata evaluation_result" where
  "approvalGate_evaluate timeline =
     (let executionTools = getExecutionTools timeline in
      if length executionTools = 0
      then Inr (buildResult ''approval-gate''
             [\<lparr>c_name = ''no-execution-tools'', c_passed = True, c_weight = 100\<rparr>] [] []
             \<lparr>am_executionToolCount = 0, am_approvalChecks = [], am_skipApproval = None\<rparr>)
      else bindE (approvalLoop timeline) (\<lambda>acc.
        Inr (buildResult ''approval-gate'' (ag_checks acc) (ag_violations acc) (ag_evidence acc)
          \<lparr>am_executionToolCount = length executionTools,
           am_approvalChecks = ag_approvalChecks acc,
           am_skipApproval = Some (shouldSkipApproval (getUserMessages timeline))\<rparr>)))"

section \<open>ContextLoadingEvaluator\<close>

definition contextPatterns :: "rx_atom list list" where
  "contextPatterns =
     [lit ''.opencode/agent/'' @ [ClsStar isDot] @ lit ''.md'' @ [Eol],
      lit ''.opencode/context/'' @ [ClsStar isDot] @ lit ''.md'' @ [Eol],
      lit ''docs/'' @ [ClsStar isDot] @ lit ''.md'' @ [Eol],
      lit ''CONTRIBUTING.md'' @ [Eol],
      lit ''README.md'' @ [Eol]]"

definition isContextFile :: "string \<Rightarrow> bool" where
  "isContextFile filePath = list_ex (\<lambda>pattern. rx_test pattern filePath) contextPatterns"

record context_read =
  cr_filePath :: string
  cr_timestamp :: int

text \<open>The candidate positions of a read's file path, in the order the source tries them.\<close>

definition readFilePath :: "timeline_event \<Rightarrow> string option" where
  "readFilePath t =
     (case ev_data t of
        None \<Rightarrow> None
      | Some d \<Rightarrow>
          js_or (case d_state_input d of None \<Rightarrow> None | Some i \<Rightarrow> i_filePath i)
         (js_or (case d_state_input d of None \<Rightarrow> None | Some i \<Rightarrow> i_path i)
         (js_or (case d_input d of None \<Rightarrow> None | Some i \<Rightarrow> i_filePath i)
         (js_or (case d_input d of None \<Rightarrow> None | Some i \<Rightarrow> i_path i)
         (js_or (d_filePath d) (d_path d))))))"

definition isContextRead :: "timeline_event \<Rightarrow> bool" where
  "isContextRead t =
     (let filePath = readFilePath t in truthy filePath \<and> isContextFile (or_empty filePath))"

definition contextReadStep :: "context_read list \<Rightarrow> timeline_event \<Rightarrow> context_read list" where
  "contextReadStep contextReads t =
     (if isContextRead t
      then contextReads @
             [\<lparr>cr_filePath = or_empty (readFilePath t), cr_timestamp = timestamp t\<rparr>]
      else contextReads)"

definition findContextReads :: "timeline_event list \<Rightarrow> context_read list" where
  "findContextReads readTools = sort_key cr_timestamp (foldl contextReadStep [] readTools)"

definition wasContextLoadedBefore :: "context_read list \<Rightarrow> int \<Rightarrow> bool" where
  "wasContextLoadedBefore contextReads ts = list_ex (\<lambda>r. cr_timestamp r < ts) contextReads"

definition requiresContext :: "timeline_event \<Rightarrow> bool" where
  "requiresContext t =
     (tool_of t = Some ''write'' \<or> tool_of t = Some ''edit'' \<or> tool_of t = Some ''task'')"

definition isBashOnlyTask :: "timeline_event list \<Rightarrow> bool" where
  "isBashOnlyTask executionTools =
     (let allBash = list_all (\<lambda>t. tool_of t = Some ''bash'') executionTools;
          hasFileModification = list_ex requiresContext executionTools
      in allBash \<and> \<not> hasFileModification)"

text \<open>
  The loop over the executions that require context: the flag \<open>allExecutionsHaveContext\<close>
  and one verdict per execution (the source's \<open>executionChecks\<close> strings hold the tool, the
  formatted date of the execution and a tick or a cross; the model keeps the boolean, and
  the throw of the date).
\<close>

definition contextStep ::
  "context_read list \<Rightarrow> bool \<times> bool list \<Rightarrow> timeline_event
     \<Rightarrow> js_error + bool \<times> bool list" where
  "contextStep contextReads st execution =
     (let hasContextBefore = wasContextLoadedBefore contextReads (timestamp execution)
      in bindE (toISOString (timestamp execution)) (\<lambda>_.
           Inr (if \<not> hasContextBefore then False else fst st, snd st @ [hasContextBefore])))"

definition contextLoop ::
  "context_read list \<Rightarrow> timeline_event list \<Rightarrow> js_error + bool \<times> bool list" where
  "contextLoop contextReads executionsRequiringContext =
     foldE (contextStep contextReads) (True, []) executionsRequiringContext"

text \<open>
  The evidence of the check: with context loaded, one line per context read with its
  formatted date; without, the formatted date of the first execution.
\<close>

definition checkEvidenceDates ::
  "context_read list \<Rightarrow> timeline_event \<Rightarrow> js_error + unit" where
  "checkEvidenceDates contextReads firstExecution =
     (if length contextReads > 0
      then foldE (\<lambda>_ r. toISOString (cr_timestamp r)) () contextReads
      else toISOString (timestamp firstExecution))"

record context_loading_check =
  contextFileLoaded :: bool
  contextFilePath :: "string option"
  loadTimestamp :: "int option"
  cl_executionTimestamp :: int

record context_task_metadata =
  cm_executionToolCount :: nat
  cm_contextFileCount :: nat
  cm_contextLoadedBeforeExecution :: bool
  cm_contextCheck :: context_loading_check
  cm_multiTurn :: bool
  cm_executionsRequiringContext :: nat
  cm_executionsWithContext :: nat

datatype context_metadata =
    Conversational
  | BashOnly nat
  | TaskSession context_task_metadata

definition contextLoading_evaluate ::
  "timeline_event list \<Rightarrow> js_error + context_metadata evaluation_result" where
  "contextLoading_evaluate timeline =
     (case getExecutionTools timeline of
        [] \<Rightarrow>
          Inr (buildResult ''context-loading''
            [\<lparr>c_name = ''conversational-session'', c_passed = True, c_weight = 100\<rparr>] [] []
            Conversational)
      | firstExecution # moreExecutions \<Rightarrow>
          (let executionTools = firstExecution # moreExecutions in
           if isBashOnlyTask executionTools
           then Inr (buildResult ''context-loading''
                  [\<lparr>c_name = ''bash-only-task'', c_passed = True, c_weight = 100\<rparr>] [] []
                  (BashOnly (length executionTools)))
           else
             let readTools = getReadTools timeline;
                 contextReads = findContextReads readTools;
                 hasAnyContextLoaded = (length contextReads > 0);
                 executionsRequiringContext = filter requiresContext executionTools
             in
             bindE (contextLoop contextReads executionsRequiringContext) (\<lambda>st.
             bindE (checkEvidenceDates contextReads firstExecution) (\<lambda>_.
             let allExecutionsHaveContext = fst st;
                 executionChecks = snd st;
                 chk = \<lparr>contextFileLoaded = (hasAnyContextLoaded \<and> allExecutionsHaveContext),
                        contextFilePath = (case contextReads of [] \<Rightarrow> None
                                           | r # _ \<Rightarrow> Some (cr_filePath r)),
                        loadTimestamp = (case contextReads of [] \<Rightarrow> None
                                         | r # _ \<Rightarrow> Some (cr_timestamp r)),
                        cl_executionTimestamp = timestamp firstExecution\<rparr>;
                 checks = [\<lparr>c_name = ''context-loaded-before-execution'',
                            c_passed = (hasAnyContextLoaded \<and> allExecutionsHaveContext),
                            c_weight = 100\<rparr>];
                 vs = (if \<not> hasAnyContextLoaded
                       then [createViolation ''no-context-loaded'' Warning
                               ''Task execution started without loading any context files''
                               (timestamp firstExecution)]
                       else if \<not> allExecutionsHaveContext
                       then [createViolation ''context-loaded-after-execution'' Warning
                               ''Some executions happened before context was loaded''
                               (timestamp firstExecution)]
                       else []);
                 ev = [createEvidence ''context-files'' None,
                       createEvidence ''execution-tools'' None]
             in Inr (buildResult ''context-loading'' checks vs ev
                  (TaskSession
                     \<lparr>cm_executionToolCount = length executionTools,
                      cm_contextFileCount = length contextReads,
                      cm_contextLoadedBeforeExecution =
                        (hasAnyContextLoaded \<and> allExecutionsHaveContext),
                      cm_contextCheck = chk,
                      cm_multiTurn = (length executionsRequiringContext > 1),
                      cm_executionsRequiringContext = length executionsRequiringContext,
                      cm_executionsWithContext = length (filter id executionChecks)\<rparr>))))))"

section \<open>DelegationEvaluator\<close>

definition DELEGATION_THRESHOLD :: nat where
  "DELEGATION_THRESHOLD = 4"

definition getFileModificationTools :: "timeline_event list \<Rightarrow> timeline_event list" where
  "getFileModificationTools timeline =
     filter (\<lambda>event. tool_of event = Some ''write'' \<or> tool_of event = Some ''edit'')
       (getToolCalls timeline)"

definition affectedPathStep :: "string list \<Rightarrow> timeline_event \<Rightarrow> string list" where
  "affectedPathStep files call =
     (case input_of call of
        None \<Rightarrow> files
      | Some inp \<Rightarrow> addIfTruthy (i_path inp) (addIfTruthy (i_filePath inp) files))"


definition delegationSkipPatterns :: "rx_atom list list" where
  "delegationSkipPatterns =
     [phrase [''don'' @ [CHR 0x27] @ ''t'', ''delegate''],
      phrase [''no'', ''delegation''],
      phrase [''just'', ''do'', ''it''],
      phrase [''do'', ''it'', ''yourself''],
      phrase [''without'', ''delegat''],
      phrase [''skip'', ''delegation'']]"

definition shouldSkipDelegation :: "timeline_event list \<Rightarrow> bool" where
  "shouldSkipDelegation userMessages =
     list_ex (\<lambda>msg. list_ex (\<lambda>pattern. rx_test pattern (message_text msg)) delegationSkipPatterns)
       userMessages"

record delegation_metadata =
  dm_fileCount :: nat
  dm_delegationThreshold :: nat
  dm_shouldDelegate :: bool
  dm_didDelegate :: bool
  dm_skipDelegation :: bool

text \<open>
  \<open>evaluate\<close>; \<open>now\<close> is the clock that \<open>fileModTools[0]?.timestamp || Date.now()\<close> falls back
  on when the first file modification has timestamp 0.
\<close>

definition delegation_evaluate ::
  "int \<Rightarrow> timeline_event list \<Rightarrow> delegation_metadata evaluation_result" where
  "delegation_evaluate now timeline =
     (let fileModTools = getFileModificationTools timeline;
          fileCount = countAffectedFiles fileModTools;
          delegationCalls = getToolCallsByName timeline ''task'';
          didDelegate = (length delegationCalls > 0);
          shouldDelegate = (fileCount \<ge> DELEGATION_THRESHOLD);
          userMessages = getUserMessages timeline;
          skipDelegation = shouldSkipDelegation userMessages;
          violationTimestamp =
            (case fileModTools of
               [] \<Rightarrow> now
             | t # _ \<Rightarrow> if timestamp t \<noteq> 0 then timestamp t else now);
          branch =
            (if fileCount = 0
             then ([\<lparr>c_name = ''no-file-modifications'', c_passed = True, c_weight = 100\<rparr>],
                   [], [])
             else if shouldDelegate \<and> \<not> didDelegate \<and> \<not> skipDelegation
             then ([\<lparr>c_name = ''delegation-required'', c_passed = False, c_weight = 100\<rparr>],
                   [createViolation ''missing-delegation'' Warning
                      (''Task modified '' @ showNat fileCount @ '' files (>= ''
                         @ showNat DELEGATION_THRESHOLD
                         @ '') without delegating to task-manager'')
                      violationTimestamp],
                   [])
             else if shouldDelegate \<and> didDelegate
             then ([\<lparr>c_name = ''delegation-correct'', c_passed = True, c_weight = 100\<rparr>],
                   [], [])
             else if \<not> shouldDelegate \<and> didDelegate
             then ([\<lparr>c_name = ''over-delegation'', c_passed = True, c_weight = 100\<rparr>],
                   [], [createEvidence ''over-delegation'' None])
             else ([\<lparr>c_name = ''direct-execution-correct'', c_passed = True, c_weight = 100\<rparr>],
                   [], []));
          checks = fst branch;
          vs = fst (snd branch);
          ev = snd (snd branch)
            @ [createEvidence ''file-modifications'' None]
            @ (if length delegationCalls > 0 then [createEvidence ''delegation-calls'' None] else [])
            @ (if skipDelegation then [createEvidence ''skip-delegation'' None] else [])
      in buildResult ''delegation'' checks vs ev
           \<lparr>dm_fileCount = fileCount,
            dm_delegationThreshold = DELEGATION_THRESHOLD,
            dm_shouldDelegate = shouldDelegate,
            dm_didDelegate = didDelegate,
            dm_skipDelegation = skipDelegation\<rparr>)"

section \<open>ToolUsageEvaluator\<close>

record anti_pattern =
  ap_pattern :: "rx_atom list"
  ap_tool :: string
  ap_message :: string

definition notSpaceBarGt :: "char \<Rightarrow> bool" where
  "notSpaceBarGt c = (\<not> isSpace c \<and> c \<noteq> CHR ''|'' \<and> c \<noteq> CHR ''>'')"

definition isBarGt :: "char \<Rightarrow> bool" where
  "isBarGt c = (c = CHR ''|'' \<or> c = CHR ''>'')"

definition isAorL :: "char \<Rightarrow> bool" where
  "isAorL c = (lowerAscii c = CHR ''a'' \<or> lowerAscii c = CHR ''l'')"

definition bashAntiPatterns :: "anti_pattern list" where
  "bashAntiPatterns =
     [\<lparr>ap_pattern = [WordB] @ liti ''cat''
          @ [ClsPlus isSpace, ClsPlus notSpaceBarGt, NegAhead [ClsStar isSpace, Cls isBarGt]],
       ap_tool = ''read'',
       ap_message = ''Use Read tool instead of cat for reading files''\<rparr>,
      \<lparr>ap_pattern = [WordB] @ liti ''head'' @ [ClsPlus isSpace],
       ap_tool = ''read'', ap_message = ''Use Read tool instead of head''\<rparr>,
      \<lparr>ap_pattern = [WordB] @ liti ''tail'' @ [ClsPlus isSpace],
       ap_tool = ''read'', ap_message = ''Use Read tool instead of tail''\<rparr>,
      \<lparr>ap_pattern = [WordB] @ liti ''ls''
          @ [ClsPlus isSpace, NegAhead (lit ''-'' @ [ClsStar isAorL, Cls isSpace])],
       ap_tool = ''list'',
       ap_message = ''Use List tool instead of ls (unless ls -la for detailed info)''\<rparr>,
      \<lparr>ap_pattern = [WordB] @ liti ''find'' @ [ClsPlus isSpace, ClsStar isDot] @ liti ''-name'',
       ap_tool = ''glob'',
       ap_message = ''Use Glob tool instead of find for pattern matching''\<rparr>,
      \<lparr>ap_pattern = liti ''echo'' @ [ClsPlus isSpace, ClsStar isDot] @ lit ''>''
          @ [ClsStar isSpace, ClsPlus (\<lambda>c. \<not> isSpace c)],
       ap_tool = ''write'', ap_message = ''Use Write tool instead of echo redirection''\<rparr>,
      \<lparr>ap_pattern = liti ''cat'' @ [ClsStar isSpace] @ lit ''<<'' @ [ClsStar isDot] @ liti ''EOF'',
       ap_tool = ''write'', ap_message = ''Use Write tool instead of cat with heredoc''\<rparr>]"

text \<open>\<open>/^\s*word\s+/i\<close>, the shape of most allowed commands.\<close>

definition startsWithCommand :: "string \<Rightarrow> rx_atom list" where
  "startsWithCommand w = [Bol, ClsStar isSpace] @ liti w @ [ClsPlus isSpace]"

definition allowedBashCommands :: "rx_atom list list" where
  "allowedBashCommands =
     map startsWithCommand
       [''grep'', ''rg'', ''npm'', ''yarn'', ''pnpm'', ''git'', ''node'', ''python'', ''docker'',
        ''curl'', ''wget'', ''mkdir'', ''rm'', ''mv'', ''cp'', ''chmod'']
     @ [[Bol, ClsStar isSpace] @ liti ''ls'' @ [ClsPlus isSpace] @ lit ''-'' @ [ClsPlus isAorL],
        startsWithCommand ''cd'',
        [Bol, ClsStar isSpace] @ liti ''pwd'' @ [ClsStar isSpace],
        startsWithCommand ''which'',
        [Bol, ClsStar isSpace] @ liti ''echo''
          @ [ClsPlus isSpace, ClsPlus (\<lambda>c. c \<noteq> CHR ''>''), Eol],
        lit ''|'']"

definition detectAntiPattern :: "string \<Rightarrow> anti_pattern option" where
  "detectAntiPattern cmd =
     (if list_ex (\<lambda>allowed. rx_test allowed cmd) allowedBashCommands then None
      else find (\<lambda>antiPattern. rx_test (ap_pattern antiPattern) cmd) bashAntiPatterns)"

record tool_usage_check =
  correctToolUsed :: bool
  toolUsed :: "string option"
  expectedTool :: "string option"
  reason :: "string option"

record tool_usage_acc =
  tu_checks :: "check list"
  tu_violations :: "violation list"
  tu_toolUsageChecks :: "tool_usage_check list"

definition command_of :: "timeline_event \<Rightarrow> string" where
  "command_of bashCall =
     or_empty (case input_of bashCall of None \<Rightarrow> None | Some inp \<Rightarrow> i_command inp)"

definition toolUsageStep :: "nat \<Rightarrow> tool_usage_acc \<Rightarrow> timeline_event \<Rightarrow> tool_usage_acc" where
  "toolUsageStep n acc bashCall =
     (case detectAntiPattern (command_of bashCall) of
        Some antiPattern \<Rightarrow>
          \<lparr>tu_checks = tu_checks acc @
             [\<lparr>c_name = ''tool-usage-'' @ showInt (timestamp bashCall),
               c_passed = False, c_weight = toDouble (100 / of_nat n)\<rparr>],
           tu_violations = tu_violations acc @
             [createViolation ''suboptimal-tool-usage'' Info (ap_message antiPattern)
                (timestamp bashCall)],
           tu_toolUsageChecks = tu_toolUsageChecks acc @
             [\<lparr>correctToolUsed = False, toolUsed = Some ''bash'',
               expectedTool = Some (ap_tool antiPattern),
               reason = Some (ap_message antiPattern)\<rparr>]\<rparr>
      | None \<Rightarrow>
          \<lparr>tu_checks = tu_checks acc @
             [\<lparr>c_name = ''tool-usage-'' @ showInt (timestamp bashCall),
               c_passed = True, c_weight = toDouble (100 / of_nat n)\<rparr>],
           tu_violations = tu_violations acc,
           tu_toolUsageChecks = tu_toolUsageChecks acc @
             [\<lparr>correctToolUsed = True, toolUsed = Some ''bash'',
               expectedTool = None, reason = None\<rparr>]\<rparr>)"

record tool_usage_metadata =
  tm_bashCallCount :: nat
  tm_antiPatternCount :: "nat option"
  tm_toolUsageChecks :: "tool_usage_check list"

definition toolUsage_evaluate :: "timeline_event list \<Rightarrow> tool_usage_metadata evaluation_result" where
  "toolUsage_evaluate timeline =
     (let bashCalls = getToolCallsByName timeline ''bash'' in
      if length bashCalls = 0
      then buildResult ''tool-usage''
             [\<lparr>c_name = ''no-bash-usage'', c_passed = True, c_weight = 100\<rparr>] [] []
             \<lparr>tm_bashCallCount = 0, tm_antiPatternCount = None, tm_toolUsageChecks = []\<rparr>
      else
        let acc = foldl (toolUsageStep (length bashCalls))
                    \<lparr>tu_checks = [], tu_violations = [], tu_toolUsageChecks = []\<rparr> bashCalls;
            antiPatternCount =
              length (filter (\<lambda>c. \<not> correctToolUsed c) (tu_toolUsageChecks acc))
        in buildResult ''tool-usage'' (tu_checks acc) (tu_violations acc)
             [createEvidence ''bash-calls'' None, createEvidence ''anti-patterns'' None]
             \<lparr>tm_bashCallCount = length bashCalls,
              tm_antiPatternCount = Some antiPatternCount,
              tm_toolUsageChecks = tu_toolUsageChecks acc\<rparr>)"

section \<open>SmartApprovalStrategy\<close>

text \<open>
  A configured \<open>RegExp\<close> is taken as the predicate its \<open>test\<close> computes (a pattern without
  the \<open>g\<close> or \<open>y\<close> flag, whose \<open>test\<close> keeps no position between calls).
\<close>

record smart_approval_config =
  allowedTools :: "string list option"
  deniedTools :: "string list option"
  approvePatterns :: "(string \<Rightarrow> bool) list option"
  denyPatterns :: "(string \<Rightarrow> bool) list option"
  maxApprovals :: "int option"
  defaultDecision :: "bool option"

record permission_properties =
  sessionId :: string
  permissionId :: string
  pr_message :: "string option"
  pr_tool :: "string option"

record smart_approval_strategy =
  config :: smart_approval_config
  approvalCount :: nat

text \<open>The constructor: \<open>defaultDecision = config.defaultDecision ?? true\<close>, the counter at 0.\<close>

definition newSmartApprovalStrategy :: "smart_approval_config \<Rightarrow> smart_approval_strategy" where
  "newSmartApprovalStrategy cfg =
     \<lparr>config = cfg\<lparr>defaultDecision :=
                  Some (case defaultDecision cfg of None \<Rightarrow> True | Some d \<Rightarrow> d)\<rparr>,
      approvalCount = 0\<rparr>"

definition includesTool :: "string list option \<Rightarrow> string option \<Rightarrow> bool" where
  "includesTool tools t =
     (truthy t \<and> (case tools of None \<Rightarrow> False | Some ts \<Rightarrow> or_empty t \<in> set ts))"

definition matchesAny :: "(string \<Rightarrow> bool) list option \<Rightarrow> string option \<Rightarrow> bool" where
  "matchesAny patterns m =
     (truthy m \<and> (case patterns of None \<Rightarrow> False
                                | Some ps \<Rightarrow> list_ex (\<lambda>pattern. pattern (or_empty m)) ps))"

text \<open>\<open>shouldApprove\<close> returns the decision and the strategy with its counter updated.\<close>

definition shouldApprove ::
  "smart_approval_strategy \<Rightarrow> permission_properties \<Rightarrow> bool \<times> smart_approval_strategy" where
  "shouldApprove this event =
     (if (case maxApprovals (config this) of
            None \<Rightarrow> False
          | Some m \<Rightarrow> int (approvalCount this) \<ge> m)
      then (False, this)
      else if includesTool (deniedTools (config this)) (pr_tool event)
      then (False, this)
      else if includesTool (allowedTools (config this)) (pr_tool event)
      then (True, this\<lparr>approvalCount := approvalCount this + 1\<rparr>)
      else if matchesAny (denyPatterns (config this)) (pr_message event)
      then (False, this)
      else if matchesAny (approvePatterns (config this)) (pr_message event)
      then (True, this\<lparr>approvalCount := approvalCount this + 1\<rparr>)
      else
        let decision = (case defaultDecision (config this) of None \<Rightarrow> False | Some d \<Rightarrow> d)
        in (decision,
            if decision then this\<lparr>approvalCount := approvalCount this + 1\<rparr> else this))"

definition getApprovalCount :: "smart_approval_strategy \<Rightarrow> nat" where
  "getApprovalCount this = approvalCount this"

definition reset :: "smart_approval_strategy \<Rightarrow> smart_approval_strategy" where
  "reset this = this\<lparr>approvalCount := 0\<rparr>"

text \<open>A sequence of requests fed to one strategy: the decisions in order, and the strategy after.\<close>

fun approveAll ::
  "smart_approval_strategy \<Rightarrow> permission_properties list
     \<Rightarrow> bool list \<times> smart_approval_strategy" where
  "approveAll this [] = ([], this)"
| "approveAll this (e # es) =
     (let r = shouldApprove this e; rs = approveAll (snd r) es
      in (fst r # fst rs, snd rs))"

text \<open>
  The order of the rules in the words of the specification: deny-list, allow-list,
  deny-pattern, allow-pattern, default.
\<close>

datatype rule = DenyList | AllowList | DenyPattern | AllowPattern | Default

definition ruleOrder :: "rule list" where
  "ruleOrder = [DenyList, AllowList, DenyPattern, AllowPattern, Default]"

definition ruleVerdict ::
  "smart_approval_config \<Rightarrow> permission_properties \<Rightarrow> rule \<Rightarrow> bool option" where
  "ruleVerdict cfg event r =
     (case r of
        DenyList \<Rightarrow> if includesTool (deniedTools cfg) (pr_tool event) then Some False else None
      | AllowList \<Rightarrow> if includesTool (allowedTools cfg) (pr_tool event) then Some True else None
      | DenyPattern \<Rightarrow>
          if matchesAny (denyPatterns cfg) (pr_message event) then Some False else None
      | AllowPattern \<Rightarrow>
          if matchesAny (approvePatterns cfg) (pr_message event) then Some True else None
      | Default \<Rightarrow> Some (case defaultDecision cfg of None \<Rightarrow> False | Some d \<Rightarrow> d))"

fun firstVerdict ::
  "smart_approval_config \<Rightarrow> permission_properties \<Rightarrow> rule list \<Rightarrow> bool option" where
  "firstVerdict cfg event [] = None"
| "firstVerdict cfg event (r # rs) =
     (case ruleVerdict cfg event r of Some d \<Rightarrow> Some d | None \<Rightarrow> firstVerdict cfg event rs)"

definition capReached :: "smart_approval_strategy \<Rightarrow> bool" where
  "capReached this =
     (case maxApprovals (config this) of
        None \<Rightarrow> False
      | Some m \<Rightarrow> int (approvalCount this) \<ge> m)"

section \<open>EventStreamHandler\<close>

text \<open>
  A handler that may throw returns \<open>Inl\<close> of the error.  The permission handler and the
  event handlers run on a state of their own (\<open>'s\<close>: the approval strategy, the collected
  events); the handler keeps the response calls it issued to the runtime and what it wrote
  to \<open>console.error\<close>.
\<close>

record server_event =
  se_type :: string
  se_properties :: permission_properties
  se_timestamp :: int

record response_call =
  rc_id :: string
  rc_permissionID :: string
  rc_response :: string

record 's stream_state =
  isListening :: bool
  issued :: "response_call list"
  errorLog :: "string list"
  handlerState :: 's

type_synonym 's permission_handler = "server_event \<Rightarrow> 's \<Rightarrow> (string + bool) \<times> 's"

type_synonym 's event_handler = "server_event \<Rightarrow> 's \<Rightarrow> string option \<times> 's"

text \<open>
  The permission part of the loop body (the \<open>try\<close> around the handler and the response).
  \<open>post\<close> is the runtime's answer to the response call: \<open>Some\<close> of an error when it throws.
\<close>

definition handlePermission ::
  "'s permission_handler option \<Rightarrow> (response_call \<Rightarrow> string option)
     \<Rightarrow> server_event \<Rightarrow> 's stream_state \<Rightarrow> 's stream_state" where
  "handlePermission permissionHandler post ev st =
     (case permissionHandler of
        None \<Rightarrow> st
      | Some h \<Rightarrow>
          if se_type ev = ''permission.request''
          then (case h ev (handlerState st) of
                  (Inl err, s') \<Rightarrow>
                    st\<lparr>errorLog := errorLog st @ [err], handlerState := s'\<rparr>
                | (Inr approved, s') \<Rightarrow>
                    (let call = \<lparr>rc_id = sessionId (se_properties ev),
                                 rc_permissionID = permissionId (se_properties ev),
                                 rc_response = (if approved then ''once'' else ''reject'')\<rparr>
                     in case post call of
                          None \<Rightarrow> st\<lparr>issued := issued st @ [call], handlerState := s'\<rparr>
                        | Some err \<Rightarrow>
                            st\<lparr>issued := issued st @ [call],
                               errorLog := errorLog st @ [err],
                               handlerState := s'\<rparr>))
          else st)"

text \<open>The registered handlers of the event's type, each in its own \<open>try\<close>.\<close>

definition runHandler :: "server_event \<Rightarrow> 's stream_state \<Rightarrow> 's event_handler \<Rightarrow> 's stream_state" where
  "runHandler ev st h =
     (case h ev (handlerState st) of
        (None, s') \<Rightarrow> st\<lparr>handlerState := s'\<rparr>
      | (Some err, s') \<Rightarrow> st\<lparr>errorLog := errorLog st @ [err], handlerState := s'\<rparr>)"

definition handleEvent ::
  "'s permission_handler option \<Rightarrow> (response_call \<Rightarrow> string option)
     \<Rightarrow> (string \<Rightarrow> 's event_handler list) \<Rightarrow> server_event \<Rightarrow> 's stream_state
     \<Rightarrow> 's stream_state" where
  "handleEvent permissionHandler post eventHandlers ev st =
     foldl (runHandler ev) (handlePermission permissionHandler post ev st)
       (eventHandlers (se_type ev))"

text \<open>
  The stream as the loop sees it: an event, a \<open>stopListening\<close> by the executor between two
  events, or a read error.  \<open>startListening\<close> throws when it is already listening; a read
  error while listening is written to the log and rethrown, one after stop was requested
  is dropped; \<open>finally\<close> clears \<open>isListening\<close>.
\<close>

datatype stream_item = Event server_event | Stop | ReadError string

fun consume ::
  "'s permission_handler option \<Rightarrow> (response_call \<Rightarrow> string option)
     \<Rightarrow> (string \<Rightarrow> 's event_handler list) \<Rightarrow> stream_item list \<Rightarrow> 's stream_state
     \<Rightarrow> string option \<times> 's stream_state" where
  "consume ph post hs [] st = (None, st)"
| "consume ph post hs (Stop # items) st = consume ph post hs items (st\<lparr>isListening := False\<rparr>)"
| "consume ph post hs (ReadError err # items) st =
     (if isListening st then (Some err, st\<lparr>errorLog := errorLog st @ [err]\<rparr>) else (None, st))"
| "consume ph post hs (Event ev # items) st =
     (if \<not> isListening st then (None, st)
      else consume ph post hs items (handleEvent ph post hs ev st))"

definition startListening ::
  "'s permission_handler option \<Rightarrow> (response_call \<Rightarrow> string option)
     \<Rightarrow> (string \<Rightarrow> 's event_handler list) \<Rightarrow> stream_item list \<Rightarrow> 's stream_state
     \<Rightarrow> string option \<times> 's stream_state" where
  "startListening ph post hs items st =
     (if isListening st then (Some ''Already listening to event stream'', st)
      else let r = consume ph post hs items (st\<lparr>isListening := True\<rparr>)
           in (fst r, (snd r)\<lparr>isListening := False\<rparr>))"

section \<open>TestExecutor: the permission handler\<close>

text \<open>
  The handler that \<open>execute\<close> registers with \<open>onPermission\<close>: it asks the approval strategy,
  counts the answer in \<open>approvalsGiven\<close> and returns it.  A strategy that throws makes the
  handler throw before the count.  The handler's state is \<open>approvalsGiven\<close> and the state of
  the strategy.
\<close>

type_synonym 'p approval_strategy = "permission_properties \<Rightarrow> 'p \<Rightarrow> (string + bool) \<times> 'p"

definition executorPermissionHandler ::
  "'p approval_strategy \<Rightarrow> (nat \<times> 'p) permission_handler" where
  "executorPermissionHandler approvalStrategy ev st =
     (case approvalStrategy (se_properties ev) (snd st) of
        (Inl err, p') \<Rightarrow> (Inl err, (fst st, p'))
      | (Inr approved, p') \<Rightarrow> (Inr approved, (fst st + 1, p')))"

text \<open>The rule-based strategy as an approval strategy: it never throws.\<close>

definition smartStrategy :: "smart_approval_strategy approval_strategy" where
  "smartStrategy props this = (Inr (fst (shouldApprove this props)), snd (shouldApprove this props))"

section \<open>TestExecutor: the smart timeout\<close>

text \<open>
  What happens while \<open>withSmartTimeout\<close> waits, in order: the two interval timers fire
  (the activity monitor first, then the timeout check, each reading the clock), an event
  arrives and the \<open>onAny\<close> handler stores the clock, the prompt settles.  \<open>Tick n1 n2\<close> carries
  the clock as the monitor reads it and as the check reads it.
\<close>

datatype occurrence = Tick int int | Activity int | Resolved | Failed string

datatype timeout_kind = AbsoluteMax | NoActivity

datatype wait_outcome = Completed | PromptError string | TimedOut timeout_kind | Pending

record smart_timeout_state =
  lastActivityTime :: int
  isActive :: bool
  monitorRunning :: bool

definition activityMonitor ::
  "int \<Rightarrow> int \<Rightarrow> int \<Rightarrow> int \<Rightarrow> smart_timeout_state \<Rightarrow> smart_timeout_state" where
  "activityMonitor startTime baseTimeoutMs maxTimeoutMs now st =
     (let timeSinceLastActivity = now - lastActivityTime st;
          totalTime = now - startTime
      in if totalTime > maxTimeoutMs
         then st\<lparr>isActive := False, monitorRunning := False\<rparr>
         else if timeSinceLastActivity > baseTimeoutMs
         then st\<lparr>isActive := False, monitorRunning := False\<rparr>
         else st)"

definition checkTimeout ::
  "int \<Rightarrow> int \<Rightarrow> int \<Rightarrow> int \<Rightarrow> smart_timeout_state \<Rightarrow> timeout_kind option" where
  "checkTimeout startTime baseTimeoutMs maxTimeoutMs now st =
     (let totalTime = now - startTime;
          timeSinceActivity = now - lastActivityTime st
      in if totalTime > maxTimeoutMs then Some AbsoluteMax
         else if timeSinceActivity > baseTimeoutMs \<and> \<not> isActive st then Some NoActivity
         else None)"

fun waitLoop ::
  "int \<Rightarrow> int \<Rightarrow> int \<Rightarrow> smart_timeout_state \<Rightarrow> occurrence list \<Rightarrow> wait_outcome" where
  "waitLoop startTime base mx st [] = Pending"
| "waitLoop startTime base mx st (Resolved # occs) = Completed"
| "waitLoop startTime base mx st (Failed err # occs) = PromptError err"
| "waitLoop startTime base mx st (Activity now # occs) =
     waitLoop startTime base mx (st\<lparr>lastActivityTime := now\<rparr>) occs"
| "waitLoop startTime base mx st (Tick n1 n2 # occs) =
     (let st' = (if monitorRunning st then activityMonitor startTime base mx n1 st else st)
      in case checkTimeout startTime base mx n2 st' of
           Some k \<Rightarrow> TimedOut k
         | None \<Rightarrow> waitLoop startTime base mx st' occs)"

definition withSmartTimeout :: "int \<Rightarrow> int \<Rightarrow> int \<Rightarrow> occurrence list \<Rightarrow> wait_outcome" where
  "withSmartTimeout baseTimeoutMs maxTimeoutMs startTime occs =
     waitLoop startTime baseTimeoutMs maxTimeoutMs
       \<lparr>lastActivityTime = startTime, isActive = True, monitorRunning = True\<rparr> occs"

text \<open>The wait of one turn in \<open>sendMultiTurnPrompts\<close>: \<open>timeout\<close> and \<open>timeout * 2\<close>.\<close>

definition multiTurnWait :: "int \<Rightarrow> int \<Rightarrow> occurrence list \<Rightarrow> wait_outcome" where
  "multiTurnWait timeout startTime occs = withSmartTimeout timeout (timeout * 2) startTime occs"

text \<open>
  The rule in the words of the specification, read at each poll: stalled when no event has
  arrived for more than \<open>baseTimeout\<close>, or when the total time exceeds \<open>maxTimeout\<close>.
\<close>

fun stalledWait :: "int \<Rightarrow> int \<Rightarrow> int \<Rightarrow> int \<Rightarrow> occurrence list \<Rightarrow> wait_outcome" where
  "stalledWait startTime base mx lastEvent [] = Pending"
| "stalledWait startTime base mx lastEvent (Resolved # occs) = Completed"
| "stalledWait startTime base mx lastEvent (Failed err # occs) = PromptError err"
| "stalledWait startTime base mx lastEvent (Activity now # occs) =
     stalledWait startTime base mx now occs"
| "stalledWait startTime base mx lastEvent (Tick n1 n2 # occs) =
     (if n2 - startTime > mx then TimedOut AbsoluteMax
      else if n1 - lastEvent > base then TimedOut NoActivity
      else stalledWait startTime base mx lastEvent occs)"

text \<open>
  A wait polled once a second for \<open>n\<close> seconds from time \<open>t\<close>, with an event at every
  multiple of \<open>period\<close> milliseconds (none when \<open>period\<close> is 0).
\<close>

fun everySecond :: "nat \<Rightarrow> int \<Rightarrow> int \<Rightarrow> occurrence list" where
  "everySecond 0 t period = []"
| "everySecond (Suc n) t period =
     (if period \<noteq> 0 \<and> (t + 1000) mod period = 0 then [Activity (t + 1000)] else [])
       @ Tick (t + 1000) (t + 1000) # everySecond n (t + 1000) period"

text \<open>
  Scenario E: events every 100 s until the prompt completes after 550 s, and a prompt with
  no event for 310 s.
\<close>

definition tricklingPrompt :: "occurrence list" where
  "tricklingPrompt = everySecond 550 0 100000 @ [Resolved]"

definition silentPrompt :: "occurrence list" where
  "silentPrompt = everySecond 310 0 0"

section \<open>Sample sessions\<close>

text \<open>Events, requests and a configuration on which the theorems below are run.\<close>

definition noInput :: tool_input where
  "noInput = \<lparr>i_filePath = None, i_path = None, i_pattern = None, i_command = None\<rparr>"

definition noData :: event_data where
  "noData = \<lparr>d_tool = None, d_input = None, d_output = None, d_text = None, d_content = None,
             d_state_input = None, d_filePath = None, d_path = None\<rparr>"

definition toolCall :: "int \<Rightarrow> string \<Rightarrow> tool_input \<Rightarrow> timeline_event" where
  "toolCall ts t inp =
     \<lparr>timestamp = ts, ev_type = ''tool_call'',
      ev_data = Some (noData\<lparr>d_tool := Some t, d_input := Some inp\<rparr>)\<rparr>"

definition bashCall :: "int \<Rightarrow> string \<Rightarrow> timeline_event" where
  "bashCall ts cmd = toolCall ts ''bash'' (noInput\<lparr>i_command := Some cmd\<rparr>)"

definition fileCall :: "int \<Rightarrow> string \<Rightarrow> string \<Rightarrow> timeline_event" where
  "fileCall ts t p = toolCall ts t (noInput\<lparr>i_filePath := Some p\<rparr>)"

definition textEvent :: "int \<Rightarrow> string \<Rightarrow> string \<Rightarrow> timeline_event" where
  "textEvent ts ty txt =
     \<lparr>timestamp = ts, ev_type = ty, ev_data = Some (noData\<lparr>d_text := Some txt\<rparr>)\<rparr>"

definition request :: "string option \<Rightarrow> string option \<Rightarrow> permission_properties" where
  "request t m = \<lparr>sessionId = ''ses_1'', permissionId = ''per_1'', pr_message = m, pr_tool = t\<rparr>"

definition sampleConfig :: smart_approval_config where
  "sampleConfig =
     \<lparr>allowedTools = Some [''read''], deniedTools = Some [''bash''],
      approvePatterns = Some [rx_test (phrase [''safe''])],
      denyPatterns = Some [rx_test (phrase [''delete''])],
      maxApprovals = Some 2, defaultDecision = None\<rparr>"

definition sampleRequests :: "permission_properties list" where
  "sampleRequests =
     [request (Some ''bash'') (Some ''this is safe''),
      request (Some ''read'') (Some ''delete the file''),
      request (Some ''glob'') (Some ''delete the file''),
      request None (Some ''a safe step''),
      request (Some ''read'') None]"

definition throwingStrategy :: "unit approval_strategy" where
  "throwingStrategy props p = (Inl ''policy failed'', p)"

definition permissionRequestEvent :: server_event where
  "permissionRequestEvent =
     \<lparr>se_type = ''permission.request'',
      se_properties = request (Some ''bash'') (Some ''run rm -rf build''),
      se_timestamp = 1000\<rparr>"

definition idle :: "'s \<Rightarrow> 's stream_state" where
  "idle s = \<lparr>isListening = False, issued = [], errorLog = [], handlerState = s\<rparr>"

section \<open>Results: the verdict of an evaluation\<close>

lemma buildResult_passed:
  "passed (buildResult n checks vs ev m) = (\<forall>v \<in> set vs. v_severity v \<noteq> Error)"
  by (simp add: buildResult_def Let_def filter_empty_conv)

lemma buildResult_violations: "violations (buildResult n checks vs ev m) = vs"
  by (simp add: buildResult_def Let_def)

lemma bindE_Inr: "(bindE m f = Inr b) = (\<exists>a. m = Inr a \<and> f a = Inr b)"
  by (cases m) (simp_all add: bindE_def)

lemma only_RangeError: "(e :: js_error) = RangeError"
  by (cases e) simp

lemma approvalGate_is_buildResult:
  "approvalGate_evaluate T = Inr r \<Longrightarrow>
     \<exists>checks vs ev m. r = buildResult ''approval-gate'' checks vs ev m"
  by (auto simp add: approvalGate_evaluate_def Let_def bindE_Inr split: if_splits)

lemma contextLoading_is_buildResult:
  "contextLoading_evaluate T = Inr r \<Longrightarrow>
     \<exists>checks vs ev m. r = buildResult ''context-loading'' checks vs ev m"
  unfolding contextLoading_evaluate_def Let_def
  by (auto simp add: bindE_Inr split: list.splits if_splits)

lemma delegation_is_buildResult:
  "\<exists>checks vs ev m. delegation_evaluate now T = buildResult ''delegation'' checks vs ev m"
  unfolding delegation_evaluate_def Let_def by blast

lemma toolUsage_is_buildResult:
  "\<exists>checks vs ev m. toolUsage_evaluate T = buildResult ''tool-usage'' checks vs ev m"
  by (auto simp add: toolUsage_evaluate_def Let_def)

text \<open>
  C5.  \<open>buildResult\<close> sets \<open>passed\<close> to true exactly when the violation list holds no
  violation of severity error, whatever the checks (and so the score) are.  The same holds
  of every result that the Approval-Gate, Context-Loading, Delegation and Tool-Usage
  evaluators return, on every timeline, since each returns through \<open>buildResult\<close>.
\<close>

theorem passed_iff_no_error_violation:
  "passed (buildResult n checks vs ev m) = (\<forall>v \<in> set vs. v_severity v \<noteq> Error)
   \<and> (approvalGate_evaluate T = Inr r1 \<longrightarrow>
        passed r1 = (\<forall>v \<in> set (violations r1). v_severity v \<noteq> Error))
   \<and> (contextLoading_evaluate T = Inr r2 \<longrightarrow>
        passed r2 = (\<forall>v \<in> set (violations r2). v_severity v \<noteq> Error))
   \<and> passed (delegation_evaluate now T)
       = (\<forall>v \<in> set (violations (delegation_evaluate now T)). v_severity v \<noteq> Error)
   \<and> passed (toolUsage_evaluate T)
       = (\<forall>v \<in> set (violations (toolUsage_evaluate T)). v_severity v \<noteq> Error)"
proof (intro conjI impI)
  show "passed (buildResult n checks vs ev m) = (\<forall>v \<in> set vs. v_severity v \<noteq> Error)"
    by (rule buildResult_passed)
  show "passed r1 = (\<forall>v \<in> set (violations r1). v_severity v \<noteq> Error)"
    if "approvalGate_evaluate T = Inr r1"
    using approvalGate_is_buildResult[OF that]
    by (auto simp only: buildResult_passed buildResult_violations)
  show "passed r2 = (\<forall>v \<in> set (violations r2). v_severity v \<noteq> Error)"
    if "contextLoading_evaluate T = Inr r2"
    using contextLoading_is_buildResult[OF that]
    by (auto simp only: buildResult_passed buildResult_violations)
  obtain c3 v3 e3 m3
    where c: "delegation_evaluate now T = buildResult ''delegation'' c3 v3 e3 m3"
    using delegation_is_buildResult by blast
  show "passed (delegation_evaluate now T)
       = (\<forall>v \<in> set (violations (delegation_evaluate now T)). v_severity v \<noteq> Error)"
    unfolding c by (simp only: buildResult_passed buildResult_violations)
  obtain c4 v4 e4 m4
    where d: "toolUsage_evaluate T = buildResult ''tool-usage'' c4 v4 e4 m4"
    using toolUsage_is_buildResult by blast
  show "passed (toolUsage_evaluate T)
       = (\<forall>v \<in> set (violations (toolUsage_evaluate T)). v_severity v \<noteq> Error)"
    unfolding d by (simp only: buildResult_passed buildResult_violations)
qed

theorem passed_iff_no_error_violation_witness:
  "passed (buildResult ''any''
             [\<lparr>c_name = ''failed'', c_passed = False, c_weight = 100\<rparr>]
             [createViolation ''w'' Warning ''warn'' 1, createViolation ''i'' Info ''note'' 2]
             [] ())
   \<and> score (buildResult ''any''
             [\<lparr>c_name = ''failed'', c_passed = False, c_weight = 100\<rparr>]
             [createViolation ''w'' Warning ''warn'' 1, createViolation ''i'' Info ''note'' 2]
             [] ()) = 0
   \<and> map_sum id passed (approvalGate_evaluate [bashCall 5 ''rm -rf build'']) = Inr False
   \<and> map_sum id passed (contextLoading_evaluate [fileCall 5 ''write'' ''/a.ts'']) = Inr True
   \<and> passed (delegation_evaluate 0 [bashCall 5 ''rm -rf build''])
   \<and> passed (toolUsage_evaluate [bashCall 5 ''cat src/index.ts''])"
proof -
  let ?A = "approvalGate_evaluate [bashCall 5 ''rm -rf build'']"
  let ?C = "contextLoading_evaluate [fileCall 5 ''write'' ''/a.ts'']"
  have s: "score (buildResult ''any''
             [\<lparr>c_name = ''failed'', c_passed = False, c_weight = 100\<rparr>]
             [createViolation ''w'' Warning ''warn'' 1, createViolation ''i'' Info ''note'' 2]
             [] ()) = 0"
    by code_simp
  have r1: "?A = Inr (projr ?A)" by code_simp
  have v1: "violations (projr ?A) =
      [createViolation ''missing-approval'' Error
         ''Execution tool 'bash' called without requesting approval'' 5]"
    by code_simp
  have r2: "?C = Inr (projr ?C)" by code_simp
  have v2: "violations (projr ?C) =
      [createViolation ''no-context-loaded'' Warning
         ''Task execution started without loading any context files'' 5]"
    by code_simp
  have v3: "violations (delegation_evaluate 0 [bashCall 5 ''rm -rf build'']) = []"
    by code_simp
  have v4: "violations (toolUsage_evaluate [bashCall 5 ''cat src/index.ts'']) =
      [createViolation ''suboptimal-tool-usage'' Info
         ''Use Read tool instead of cat for reading files'' 5]"
    by code_simp
  have p1: "\<not> passed (projr ?A)"
    using passed_iff_no_error_violation
      [of "''any''" "[]" "[]" "[]" "()" "[bashCall 5 ''rm -rf build'']" "projr ?A"
          "projr (contextLoading_evaluate [bashCall 5 ''rm -rf build''])" 0] r1 v1
    by (simp add: createViolation_def)
  have p2: "passed (projr ?C)"
    using passed_iff_no_error_violation
      [of "''any''" "[]" "[]" "[]" "()" "[fileCall 5 ''write'' ''/a.ts'']"
          "projr (approvalGate_evaluate [fileCall 5 ''write'' ''/a.ts''])" "projr ?C" 0] r2 v2
    by (simp add: createViolation_def)
  have m1: "map_sum id passed ?A = Inr False"
    using p1 by (subst r1) simp
  have m2: "map_sum id passed ?C = Inr True"
    using p2 by (subst r2) simp
  show ?thesis
    using passed_iff_no_error_violation
      [of "''any''" "[\<lparr>c_name = ''failed'', c_passed = False, c_weight = 100\<rparr>]"
          "[createViolation ''w'' Warning ''warn'' 1, createViolation ''i'' Info ''note'' 2]"
          "[]" "()" "[bashCall 5 ''rm -rf build'']" "projr ?A"
          "projr (contextLoading_evaluate [bashCall 5 ''rm -rf build''])" 0]
          passed_iff_no_error_violation
      [of "''any''" "[]" "[]" "[]" "()" "[bashCall 5 ''cat src/index.ts'']"
          "projr (approvalGate_evaluate [bashCall 5 ''cat src/index.ts''])"
          "projr (contextLoading_evaluate [bashCall 5 ''cat src/index.ts''])" 0] s m1 m2
    by (simp add: v3 v4 createViolation_def)
qed

lemma no_risky_getExecutionTools:
  "(\<forall>e \<in> set T. ev_type e = ''tool_call'' \<longrightarrow>
       tool_of e \<notin> {Some ''bash'', Some ''write'', Some ''edit'', Some ''task''})
   \<Longrightarrow> getExecutionTools T = []"
  by (auto simp add: getExecutionTools_def getToolCalls_def isExecutionTool_def
        executionToolNames_def filter_empty_conv split: option.splits)

text \<open>
  C6.  On a timeline with no tool-call event whose tool is bash, write, edit or task, the
  Approval-Gate evaluator and the Context-Loading evaluator both return a result, with
  \<open>passed = true\<close> and an empty violation list.
\<close>

theorem no_risky_calls_pass:
  assumes "\<forall>e \<in> set T. ev_type e = ''tool_call'' \<longrightarrow>
       tool_of e \<notin> {Some ''bash'', Some ''write'', Some ''edit'', Some ''task''}"
  shows "(\<exists>r. approvalGate_evaluate T = Inr r \<and> passed r \<and> violations r = [])
       \<and> (\<exists>r. contextLoading_evaluate T = Inr r \<and> passed r \<and> violations r = [])"
  using no_risky_getExecutionTools[OF assms]
  by (simp add: approvalGate_evaluate_def contextLoading_evaluate_def buildResult_def Let_def)

theorem no_risky_calls_pass_witness:
  "map_sum id passed (approvalGate_evaluate
      [textEvent 1 ''user_message'' ''What is in the README?'', fileCall 2 ''read'' ''README.md''])
     = Inr True
   \<and> map_sum id violations (approvalGate_evaluate
      [textEvent 1 ''user_message'' ''What is in the README?'', fileCall 2 ''read'' ''README.md''])
     = Inr []
   \<and> map_sum id passed (contextLoading_evaluate
      [textEvent 1 ''user_message'' ''What is in the README?'', fileCall 2 ''read'' ''README.md''])
     = Inr True
   \<and> map_sum id violations (contextLoading_evaluate
      [textEvent 1 ''user_message'' ''What is in the README?'', fileCall 2 ''read'' ''README.md''])
     = Inr []"
  using no_risky_calls_pass
    [of "[textEvent 1 ''user_message'' ''What is in the README?'',
          fileCall 2 ''read'' ''README.md'']"]
  by (auto simp add: textEvent_def fileCall_def toolCall_def tool_of_def noData_def)

section \<open>Results: the rule-based approval policy\<close>

lemma shouldApprove_capped: "capReached this \<Longrightarrow> shouldApprove this e = (False, this)"
  by (simp add: shouldApprove_def capReached_def)

lemma shouldApprove_rule_order:
  "\<not> capReached this \<Longrightarrow>
     firstVerdict (config this) e ruleOrder = Some (fst (shouldApprove this e))"
  by (simp add: shouldApprove_def capReached_def ruleOrder_def ruleVerdict_def Let_def)

lemma approveAll_capped:
  "capReached this \<Longrightarrow> approveAll this es = (replicate (length es) False, this)"
  by (induction es) (simp_all add: shouldApprove_capped Let_def)

lemma approveAll_append:
  "approveAll this (es1 @ es2) =
     (fst (approveAll this es1) @ fst (approveAll (snd (approveAll this es1)) es2),
      snd (approveAll (snd (approveAll this es1)) es2))"
  by (induction es1 arbitrary: this) (simp_all add: Let_def)

lemma shouldApprove_count:
  "shouldApprove this e = (b, this') \<Longrightarrow>
     approvalCount this' = approvalCount this + (if b then 1 else 0) \<and> config this' = config this"
  by (auto simp add: shouldApprove_def Let_def split: if_splits)

lemma approveAll_count:
  "approveAll this es = (ds, this') \<Longrightarrow>
     approvalCount this' = approvalCount this + length (filter id ds) \<and> config this' = config this"
proof (induction es arbitrary: this ds this')
  case Nil
  then show ?case by simp
next
  case (Cons e es)
  obtain b t1 where s: "shouldApprove this e = (b, t1)" by (cases "shouldApprove this e")
  obtain ds2 t2 where r: "approveAll t1 es = (ds2, t2)" by (cases "approveAll t1 es")
  from Cons.prems s r have eq: "ds = b # ds2" "this' = t2" by (simp_all add: Let_def)
  from shouldApprove_count[OF s] Cons.IH[OF r] eq show ?case by auto
qed

text \<open>
  C4.  While the cap is not reached, the decision of \<open>shouldApprove\<close> is the verdict of the
  first rule that applies in the order deny-list, allow-list, deny-pattern, allow-pattern,
  default.  Once the approval count has reached \<open>maxApprovals\<close>, the decision is deny and
  the strategy is unchanged, whatever the request; so in a sequence of requests, every
  request after the count has reached the cap is denied.
\<close>

theorem rule_order_and_cap:
  "(\<not> capReached this \<longrightarrow>
      firstVerdict (config this) e ruleOrder = Some (fst (shouldApprove this e)))
   \<and> (capReached this \<longrightarrow> shouldApprove this e = (False, this))
   \<and> (capReached (snd (approveAll this es1)) \<longrightarrow>
        fst (approveAll this (es1 @ es2))
          = fst (approveAll this es1) @ replicate (length es2) False)"
proof (intro conjI impI)
  assume "\<not> capReached this"
  then show "firstVerdict (config this) e ruleOrder = Some (fst (shouldApprove this e))"
    by (rule shouldApprove_rule_order)
next
  assume "capReached this"
  then show "shouldApprove this e = (False, this)"
    by (rule shouldApprove_capped)
next
  assume "capReached (snd (approveAll this es1))"
  then have "approveAll (snd (approveAll this es1)) es2
      = (replicate (length es2) False, snd (approveAll this es1))"
    by (rule approveAll_capped)
  then show "fst (approveAll this (es1 @ es2))
      = fst (approveAll this es1) @ replicate (length es2) False"
    by (simp add: approveAll_append)
qed

theorem rule_order_and_cap_witness:
  "\<not> capReached (newSmartApprovalStrategy sampleConfig)
   \<and> firstVerdict (config (newSmartApprovalStrategy sampleConfig))
        (request (Some ''bash'') (Some ''this is safe'')) ruleOrder = Some False
   \<and> fst (shouldApprove (newSmartApprovalStrategy sampleConfig)
        (request (Some ''bash'') (Some ''this is safe''))) = False
   \<and> capReached (snd (approveAll (newSmartApprovalStrategy sampleConfig)
        [request (Some ''read'') None, request None (Some ''a safe step'')]))
   \<and> fst (approveAll (newSmartApprovalStrategy sampleConfig)
        ([request (Some ''read'') None, request None (Some ''a safe step'')]
           @ [request (Some ''read'') None, request (Some ''glob'') None]))
       = [True, True, False, False]
   \<and> shouldApprove (snd (approveAll (newSmartApprovalStrategy sampleConfig)
          [request (Some ''read'') None, request None (Some ''a safe step'')]))
        (request (Some ''read'') None)
       = (False, snd (approveAll (newSmartApprovalStrategy sampleConfig)
          [request (Some ''read'') None, request None (Some ''a safe step'')]))"
proof -
  let ?S = "newSmartApprovalStrategy sampleConfig"
  let ?es1 = "[request (Some ''read'') None, request None (Some ''a safe step'')]"
  let ?es2 = "[request (Some ''read'') None, request (Some ''glob'') None]"
  have a: "\<not> capReached ?S" by code_simp
  have b: "fst (shouldApprove ?S (request (Some ''bash'') (Some ''this is safe''))) = False"
    by code_simp
  have c: "capReached (snd (approveAll ?S ?es1))" by code_simp
  have d: "fst (approveAll ?S ?es1) = [True, True]" by code_simp
  show ?thesis
    using rule_order_and_cap[of ?S "request (Some ''bash'') (Some ''this is safe'')" ?es1 ?es2]
          rule_order_and_cap[of "snd (approveAll ?S ?es1)" "request (Some ''read'') None" "[]" "[]"]
          a b c d
    by simp
qed

text \<open>
  C10.  A call of \<open>shouldApprove\<close> adds one to the approval counter when it returns true and
  leaves the counter as it is when it returns false, whichever rule decided; so after any
  sequence of requests fed to a fresh strategy, \<open>getApprovalCount\<close> is the number of
  approvals returned.
\<close>

theorem approval_count_tracks_approvals:
  "(shouldApprove this e = (b, this') \<longrightarrow>
      getApprovalCount this' = getApprovalCount this + (if b then 1 else 0))
   \<and> (approveAll (newSmartApprovalStrategy cfg) es = (ds, final) \<longrightarrow>
      getApprovalCount final = length (filter id ds))"
proof -
  have "approvalCount (newSmartApprovalStrategy cfg) = 0"
    by (simp add: newSmartApprovalStrategy_def)
  then show ?thesis
    using shouldApprove_count[of this e b this']
          approveAll_count[of "newSmartApprovalStrategy cfg" es ds final]
    by (auto simp add: getApprovalCount_def)
qed

theorem approval_count_tracks_approvals_witness:
  "fst (approveAll (newSmartApprovalStrategy sampleConfig) sampleRequests)
      = [False, True, False, True, False]
   \<and> getApprovalCount (snd (approveAll (newSmartApprovalStrategy sampleConfig) sampleRequests)) = 2
   \<and> getApprovalCount (snd (shouldApprove (newSmartApprovalStrategy sampleConfig)
        (request (Some ''read'') None))) = 1
   \<and> getApprovalCount (snd (shouldApprove (newSmartApprovalStrategy sampleConfig)
        (request (Some ''bash'') None))) = 0"
proof -
  let ?S = "newSmartApprovalStrategy sampleConfig"
  have a: "fst (approveAll ?S sampleRequests) = [False, True, False, True, False]"
    by code_simp
  have b: "fst (shouldApprove ?S (request (Some ''read'') None)) = True" by code_simp
  have c: "fst (shouldApprove ?S (request (Some ''bash'') None)) = False" by code_simp
  have z: "getApprovalCount ?S = 0" by code_simp
  show ?thesis
    using approval_count_tracks_approvals
            [of ?S "request (Some ''read'') None" True
                "snd (shouldApprove ?S (request (Some ''read'') None))"
                sampleConfig sampleRequests "fst (approveAll ?S sampleRequests)"
                "snd (approveAll ?S sampleRequests)"]
          approval_count_tracks_approvals
            [of ?S "request (Some ''bash'') None" False
                "snd (shouldApprove ?S (request (Some ''bash'') None))"
                sampleConfig "[]" "[]" ?S]
          a b c z
    by (simp add: prod_eq_iff)
qed

section \<open>Results: the Approval-Gate evaluator\<close>

lemma toISOString_Inr: "(toISOString ts = Inr u) = validTimeValue ts"
  by (simp add: toISOString_def)

lemma checkApprovalForTool_skip:
  "checkApprovalForTool c T s = checkApprovalForTool c T s'"
  by (simp add: checkApprovalForTool_def)

lemma find_SomeD: "find P xs = Some x \<Longrightarrow> x \<in> set xs \<and> P x"
  by (induction xs) (auto split: if_splits)

lemma find_approval_None:
  "(find (\<lambda>msg. containsApprovalLanguage (message_text msg))
       (rev (filter (\<lambda>e. ev_type e = ''text'' \<or> ev_type e = ''assistant_message'')
               (getEventsBefore T (timestamp c)))) = None)
   = (\<not> (\<exists>m \<in> set T. isAssistantMessage m \<and> timestamp m < timestamp c
                    \<and> containsApprovalLanguage (message_text m)))"
  by (auto simp add: find_None_iff getEventsBefore_def isAssistantMessage_def)

lemma find_approval_Some:
  "find (\<lambda>msg. containsApprovalLanguage (message_text msg))
       (rev (filter (\<lambda>e. ev_type e = ''text'' \<or> ev_type e = ''assistant_message'')
               (getEventsBefore T (timestamp c)))) = Some m \<Longrightarrow> m \<in> set T"
  by (auto simp add: getEventsBefore_def dest!: find_SomeD)

lemma checkApprovalForTool_Inr:
  assumes "checkApprovalForTool c T s = Inr chk"
  shows "approvalRequested chk =
           (\<exists>m \<in> set T. isAssistantMessage m \<and> timestamp m < timestamp c
                    \<and> containsApprovalLanguage (message_text m))
         \<and> validTimeValue (timestamp c)"
proof (cases "find (\<lambda>msg. containsApprovalLanguage (message_text msg))
       (rev (filter (\<lambda>e. ev_type e = ''text'' \<or> ev_type e = ''assistant_message'')
               (getEventsBefore T (timestamp c))))")
  case None
  with assms find_approval_None[of T c] show ?thesis
    by (auto simp add: checkApprovalForTool_def Let_def bindE_Inr toISOString_Inr)
next
  case (Some m)
  have ex: "\<exists>m \<in> set T. isAssistantMessage m \<and> timestamp m < timestamp c
                    \<and> containsApprovalLanguage (message_text m)"
  proof (rule ccontr)
    assume "\<not> ?thesis"
    then have "find (\<lambda>msg. containsApprovalLanguage (message_text msg))
       (rev (filter (\<lambda>e. ev_type e = ''text'' \<or> ev_type e = ''assistant_message'')
               (getEventsBefore T (timestamp c)))) = None"
      by (simp add: find_approval_None)
    with Some show False by simp
  qed
  from assms Some ex show ?thesis
    by (auto simp add: checkApprovalForTool_def Let_def bindE_Inr toISOString_Inr)
qed

lemma checkApprovalForTool_returns:
  assumes "\<forall>e \<in> set T. validTimeValue (timestamp e)" and "validTimeValue (timestamp c)"
  shows "\<exists>chk. checkApprovalForTool c T s = Inr chk"
proof (cases "find (\<lambda>msg. containsApprovalLanguage (message_text msg))
       (rev (filter (\<lambda>e. ev_type e = ''text'' \<or> ev_type e = ''assistant_message'')
               (getEventsBefore T (timestamp c))))")
  case None
  with assms(2) show ?thesis
    by (simp add: checkApprovalForTool_def Let_def bindE_def toISOString_def)
next
  case (Some m)
  from find_approval_Some[OF Some] assms(1) have "validTimeValue (timestamp m)" by simp
  with Some assms(2) show ?thesis
    by (simp add: checkApprovalForTool_def Let_def bindE_def toISOString_def)
qed

lemma checkApprovalForTool_throws:
  "\<not> validTimeValue (timestamp c) \<Longrightarrow> checkApprovalForTool c T s = Inl RangeError"
  by (cases "checkApprovalForTool c T s")
     (auto simp add: only_RangeError dest: checkApprovalForTool_Inr)

lemma approvalStep_Inr:
  "(approvalStep T skip n acc c = Inr acc') =
     (\<exists>chk. checkApprovalForTool c T skip = Inr chk \<and>
        acc' = \<lparr>ag_checks = ag_checks acc @
              [\<lparr>c_name = ''approval-'' @ showOpt (tool_of c) @ ''-'' @ showInt (timestamp c),
                c_passed = (approvalRequested chk \<or> skip),
                c_weight = toDouble (100 / of_nat n)\<rparr>],
            ag_violations = ag_violations acc @
              (if \<not> approvalRequested chk \<and> \<not> skip then [missingApprovalViolation c] else []),
            ag_evidence = ag_evidence acc @
              [createEvidence ''tool-execution'' (Some (timestamp c))],
            ag_approvalChecks = ag_approvalChecks acc @ [chk]\<rparr>)"
  by (auto simp add: approvalStep_def bindE_Inr toISOString_Inr dest: checkApprovalForTool_Inr)

lemma approvalFold_Inr:
  "foldE (approvalStep T skip n) acc es = Inr acc' \<Longrightarrow>
     ag_violations acc' = ag_violations acc @
       map missingApprovalViolation
         (filter (\<lambda>c. \<not> (\<exists>m \<in> set T. isAssistantMessage m \<and> timestamp m < timestamp c
                    \<and> containsApprovalLanguage (message_text m)) \<and> \<not> skip) es)
     \<and> map c_passed (ag_checks acc') = map c_passed (ag_checks acc) @
       map (\<lambda>c. (\<exists>m \<in> set T. isAssistantMessage m \<and> timestamp m < timestamp c
                    \<and> containsApprovalLanguage (message_text m)) \<or> skip) es
     \<and> map Inr (ag_approvalChecks acc') = map Inr (ag_approvalChecks acc) @
       map (\<lambda>c. checkApprovalForTool c T skip) es"
proof (induction es arbitrary: acc)
  case Nil
  then show ?case by simp
next
  case (Cons c es)
  from Cons.prems obtain acc1 where s: "approvalStep T skip n acc c = Inr acc1"
    and r: "foldE (approvalStep T skip n) acc1 es = Inr acc'"
    by (auto split: sum.splits)
  from s obtain chk where k: "checkApprovalForTool c T skip = Inr chk"
    and a1: "ag_violations acc1 = ag_violations acc @
              (if \<not> approvalRequested chk \<and> \<not> skip then [missingApprovalViolation c] else [])"
      "ag_checks acc1 = ag_checks acc @
              [\<lparr>c_name = ''approval-'' @ showOpt (tool_of c) @ ''-'' @ showInt (timestamp c),
                c_passed = (approvalRequested chk \<or> skip),
                c_weight = toDouble (100 / of_nat n)\<rparr>]"
      "ag_approvalChecks acc1 = ag_approvalChecks acc @ [chk]"
    unfolding approvalStep_Inr by auto
  from checkApprovalForTool_Inr[OF k] Cons.IH[OF r] a1 k show ?case
    by simp
qed

lemma approvalFold_returns:
  "(\<exists>acc'. foldE (approvalStep T skip n) acc es = Inr acc') =
     (\<forall>c \<in> set es. \<exists>chk. checkApprovalForTool c T skip = Inr chk)"
proof (induction es arbitrary: acc)
  case Nil
  then show ?case by simp
next
  case (Cons c es)
  show ?case
  proof (cases "checkApprovalForTool c T skip")
    case (Inl e)
    then have "approvalStep T skip n acc c = Inl e"
      by (simp add: approvalStep_def bindE_def)
    with Inl show ?thesis by simp
  next
    case (Inr chk)
    then obtain acc1 where s: "approvalStep T skip n acc c = Inr acc1"
      unfolding approvalStep_Inr by blast
    with Inr Cons.IH[of acc1] show ?thesis by simp
  qed
qed

lemma approvalGate_violations:
  assumes "approvalGate_evaluate T = Inr r"
  shows "violations r =
     map missingApprovalViolation
       (filter (\<lambda>c. \<not> (\<exists>m \<in> set T. isAssistantMessage m \<and> timestamp m < timestamp c
                            \<and> containsApprovalLanguage (message_text m))
                   \<and> \<not> shouldSkipApproval (getUserMessages T))
          (getExecutionTools T))"
proof (cases "getExecutionTools T = []")
  case True
  with assms show ?thesis
    by (auto simp add: approvalGate_evaluate_def Let_def buildResult_violations)
next
  case False
  with assms obtain acc where l: "approvalLoop T = Inr acc"
    and r: "r = buildResult ''approval-gate'' (ag_checks acc) (ag_violations acc) (ag_evidence acc)
          \<lparr>am_executionToolCount = length (getExecutionTools T),
           am_approvalChecks = ag_approvalChecks acc,
           am_skipApproval = Some (shouldSkipApproval (getUserMessages T))\<rparr>"
    by (auto simp add: approvalGate_evaluate_def Let_def bindE_Inr)
  from l have "ag_violations acc = map missingApprovalViolation
       (filter (\<lambda>c. \<not> (\<exists>m \<in> set T. isAssistantMessage m \<and> timestamp m < timestamp c
                            \<and> containsApprovalLanguage (message_text m))
                   \<and> \<not> shouldSkipApproval (getUserMessages T))
          (getExecutionTools T))"
    using approvalFold_Inr[OF l[unfolded approvalLoop_def Let_def]] by simp
  then show ?thesis unfolding r by (simp add: buildResult_violations)
qed

lemma approvalLoop_returns:
  "\<forall>e \<in> set T. validTimeValue (timestamp e) \<Longrightarrow> \<exists>acc. approvalLoop T = Inr acc"
  unfolding approvalLoop_def Let_def approvalFold_returns
  by (auto intro!: checkApprovalForTool_returns
        simp add: getExecutionTools_def getToolCalls_def)

lemma approvalGate_returns:
  "\<forall>e \<in> set T. validTimeValue (timestamp e) \<Longrightarrow> \<exists>r. approvalGate_evaluate T = Inr r"
  using approvalLoop_returns[of T]
  by (auto simp add: approvalGate_evaluate_def Let_def bindE_def)

lemma approvalGate_throws:
  assumes "c \<in> set (getExecutionTools T)" and "\<not> validTimeValue (timestamp c)"
  shows "approvalGate_evaluate T = Inl RangeError"
proof (cases "approvalGate_evaluate T")
  case (Inl e)
  then show ?thesis by (simp add: only_RangeError)
next
  case (Inr r)
  with assms(1) obtain acc where "approvalLoop T = Inr acc"
    by (auto simp add: approvalGate_evaluate_def Let_def bindE_Inr split: if_splits)
  then have "\<forall>c \<in> set (getExecutionTools T).
      \<exists>chk. checkApprovalForTool c T (shouldSkipApproval (getUserMessages T)) = Inr chk"
    unfolding approvalLoop_def Let_def using approvalFold_returns by blast
  with assms(1) obtain chk
    where "checkApprovalForTool c T (shouldSkipApproval (getUserMessages T)) = Inr chk"
    by blast
  from checkApprovalForTool_Inr[OF this] assms(2) show ?thesis by simp
qed

lemma risky_in_execution_tools:
  "c \<in> set T \<Longrightarrow> ev_type c = ''tool_call'' \<Longrightarrow>
   tool_of c \<in> {Some ''bash'', Some ''write'', Some ''edit'', Some ''task''} \<Longrightarrow>
   c \<in> set (getExecutionTools T)"
  by (auto simp add: getExecutionTools_def getToolCalls_def isExecutionTool_def
        executionToolNames_def)

lemma missingApprovalViolation_fields:
  "v_type (missingApprovalViolation c) = ''missing-approval''
   \<and> v_severity (missingApprovalViolation c) = Error
   \<and> v_timestamp (missingApprovalViolation c) = timestamp c"
  by (simp add: missingApprovalViolation_def createViolation_def)

text \<open>
  C1.  Let \<open>c\<close> be a risky tool call (bash, write, edit or task) of a timeline whose
  timestamps are time values, so that no date formatting throws; then the evaluator
  returns a result.  If some assistant message with an earlier timestamp contains approval
  language, the loop iteration for \<open>c\<close> adds no violation, and no violation of the result
  carries the timestamp of \<open>c\<close>.  If there is no such message and no user message holds a
  skip directive, the iteration for \<open>c\<close> adds exactly one violation, of type
  \<open>missing-approval\<close>, severity error and the timestamp of \<open>c\<close>; it is in the result, and
  the violations of the result with that timestamp are exactly these, one for each risky
  call with that timestamp.  When the timestamp of \<open>c\<close> is not a time value, the evaluator
  throws a \<open>RangeError\<close> and returns nothing.
\<close>

theorem approval_gate_per_call:
  assumes "c \<in> set T" and "ev_type c = ''tool_call''"
    and "tool_of c \<in> {Some ''bash'', Some ''write'', Some ''edit'', Some ''task''}"
  shows "((\<forall>e \<in> set T. validTimeValue (timestamp e)) \<longrightarrow>
          (\<exists>r. approvalGate_evaluate T = Inr r
            \<and> ((\<exists>m \<in> set T. isAssistantMessage m \<and> timestamp m < timestamp c
                    \<and> containsApprovalLanguage (message_text m)) \<longrightarrow>
                 (\<exists>acc'. approvalStep T skip n acc c = Inr acc'
                     \<and> ag_violations acc' = ag_violations acc)
                 \<and> (\<forall>v \<in> set (violations r). v_timestamp v \<noteq> timestamp c))
            \<and> (\<not> (\<exists>m \<in> set T. isAssistantMessage m \<and> timestamp m < timestamp c
                    \<and> containsApprovalLanguage (message_text m))
                 \<and> \<not> shouldSkipApproval (getUserMessages T) \<longrightarrow>
                 (\<exists>acc'. approvalStep T (shouldSkipApproval (getUserMessages T)) n acc c
                            = Inr acc'
                     \<and> ag_violations acc' = ag_violations acc @ [missingApprovalViolation c])
                 \<and> v_type (missingApprovalViolation c) = ''missing-approval''
                 \<and> v_severity (missingApprovalViolation c) = Error
                 \<and> v_timestamp (missingApprovalViolation c) = timestamp c
                 \<and> filter (\<lambda>v. v_timestamp v = timestamp c) (violations r)
                   = map missingApprovalViolation
                       (filter (\<lambda>e. timestamp e = timestamp c) (getExecutionTools T))
                 \<and> missingApprovalViolation c \<in> set (violations r))))
       \<and> (\<not> validTimeValue (timestamp c) \<longrightarrow> approvalGate_evaluate T = Inl RangeError)"
proof (intro conjI impI)
  assume valid: "\<forall>e \<in> set T. validTimeValue (timestamp e)"
  then obtain r where r: "approvalGate_evaluate T = Inr r"
    using approvalGate_returns by blast
  note vs = approvalGate_violations[OF r]
  from valid assms(1) have vc: "validTimeValue (timestamp c)" by simp
  have step: "\<And>s. \<exists>chk. checkApprovalForTool c T s = Inr chk"
    using checkApprovalForTool_returns[OF valid vc] by simp
  have yes: "(\<exists>acc'. approvalStep T skip n acc c = Inr acc'
                     \<and> ag_violations acc' = ag_violations acc)
                 \<and> (\<forall>v \<in> set (violations r). v_timestamp v \<noteq> timestamp c)"
    if a: "\<exists>m \<in> set T. isAssistantMessage m \<and> timestamp m < timestamp c
                    \<and> containsApprovalLanguage (message_text m)"
  proof
    from step obtain chk where k: "checkApprovalForTool c T skip = Inr chk" by blast
    from checkApprovalForTool_Inr[OF k] a have "approvalRequested chk" by simp
    with k show "\<exists>acc'. approvalStep T skip n acc c = Inr acc'
                     \<and> ag_violations acc' = ag_violations acc"
      unfolding approvalStep_Inr by auto
    show "\<forall>v \<in> set (violations r). v_timestamp v \<noteq> timestamp c"
      using a unfolding vs by (auto simp add: missingApprovalViolation_fields)
  qed
  have no: "(\<exists>acc'. approvalStep T (shouldSkipApproval (getUserMessages T)) n acc c
                            = Inr acc'
                     \<and> ag_violations acc' = ag_violations acc @ [missingApprovalViolation c])
                 \<and> v_type (missingApprovalViolation c) = ''missing-approval''
                 \<and> v_severity (missingApprovalViolation c) = Error
                 \<and> v_timestamp (missingApprovalViolation c) = timestamp c
                 \<and> filter (\<lambda>v. v_timestamp v = timestamp c) (violations r)
                   = map missingApprovalViolation
                       (filter (\<lambda>e. timestamp e = timestamp c) (getExecutionTools T))
                 \<and> missingApprovalViolation c \<in> set (violations r)"
    if b: "\<not> (\<exists>m \<in> set T. isAssistantMessage m \<and> timestamp m < timestamp c
                    \<and> containsApprovalLanguage (message_text m))
                 \<and> \<not> shouldSkipApproval (getUserMessages T)"
  proof (intro conjI)
    from b have s: "\<not> shouldSkipApproval (getUserMessages T)" by simp
    from step obtain chk
      where k: "checkApprovalForTool c T (shouldSkipApproval (getUserMessages T)) = Inr chk"
      by blast
    from checkApprovalForTool_Inr[OF k] b have "\<not> approvalRequested chk" by simp
    with k s show "\<exists>acc'. approvalStep T (shouldSkipApproval (getUserMessages T)) n acc c
                            = Inr acc'
                     \<and> ag_violations acc' = ag_violations acc @ [missingApprovalViolation c]"
      unfolding approvalStep_Inr by auto
    show "v_type (missingApprovalViolation c) = ''missing-approval''"
      "v_severity (missingApprovalViolation c) = Error"
      "v_timestamp (missingApprovalViolation c) = timestamp c"
      by (simp_all add: missingApprovalViolation_fields)
    show "filter (\<lambda>v. v_timestamp v = timestamp c) (violations r)
              = map missingApprovalViolation
                  (filter (\<lambda>e. timestamp e = timestamp c) (getExecutionTools T))"
      unfolding vs filter_map o_def
      using b
      by (auto simp add: missingApprovalViolation_fields
            intro!: arg_cong[where f="map missingApprovalViolation"] filter_cong)
    show "missingApprovalViolation c \<in> set (violations r)"
      using risky_in_execution_tools[OF assms] b unfolding vs by auto
  qed
  from r yes no
  show "\<exists>r. approvalGate_evaluate T = Inr r
            \<and> ((\<exists>m \<in> set T. isAssistantMessage m \<and> timestamp m < timestamp c
                    \<and> containsApprovalLanguage (message_text m)) \<longrightarrow>
                 (\<exists>acc'. approvalStep T skip n acc c = Inr acc'
                     \<and> ag_violations acc' = ag_violations acc)
                 \<and> (\<forall>v \<in> set (violations r). v_timestamp v \<noteq> timestamp c))
            \<and> (\<not> (\<exists>m \<in> set T. isAssistantMessage m \<and> timestamp m < timestamp c
                    \<and> containsApprovalLanguage (message_text m))
                 \<and> \<not> shouldSkipApproval (getUserMessages T) \<longrightarrow>
                 (\<exists>acc'. approvalStep T (shouldSkipApproval (getUserMessages T)) n acc c
                            = Inr acc'
                     \<and> ag_violations acc' = ag_violations acc @ [missingApprovalViolation c])
                 \<and> v_type (missingApprovalViolation c) = ''missing-approval''
                 \<and> v_severity (missingApprovalViolation c) = Error
                 \<and> v_timestamp (missingApprovalViolation c) = timestamp c
                 \<and> filter (\<lambda>v. v_timestamp v = timestamp c) (violations r)
                   = map missingApprovalViolation
                       (filter (\<lambda>e. timestamp e = timestamp c) (getExecutionTools T))
                 \<and> missingApprovalViolation c \<in> set (violations r))"
    by blast
next
  assume "\<not> validTimeValue (timestamp c)"
  with approvalGate_throws[OF risky_in_execution_tools[OF assms]]
  show "approvalGate_evaluate T = Inl RangeError" by simp
qed

theorem approval_gate_per_call_witness:
  "\<not> isl (approvalGate_evaluate
        [textEvent 1 ''assistant_message'' ''May I install dependencies?'',
         bashCall 5 ''npm install''])
   \<and> \<not> (\<exists>v \<in> set (violations (projr (approvalGate_evaluate
        [textEvent 1 ''assistant_message'' ''May I install dependencies?'',
         bashCall 5 ''npm install'']))). v_timestamp v = 5)
   \<and> map_sum id violations (approvalGate_evaluate [bashCall 5 ''rm -rf build''])
       = Inr [missingApprovalViolation (bashCall 5 ''rm -rf build'')]
   \<and> v_type (missingApprovalViolation (bashCall 5 ''rm -rf build'')) = ''missing-approval''
   \<and> v_severity (missingApprovalViolation (bashCall 5 ''rm -rf build'')) = Error
   \<and> v_timestamp (missingApprovalViolation (bashCall 5 ''rm -rf build'')) = 5
   \<and> approvalGate_evaluate [bashCall 8640000000000001 ''rm -rf build''] = Inl RangeError"
proof -
  let ?a = "bashCall 5 ''npm install''"
  let ?A = "[textEvent 1 ''assistant_message'' ''May I install dependencies?'', ?a]"
  let ?b = "bashCall 5 ''rm -rf build''"
  let ?B = "[?b]"
  let ?z = "bashCall 8640000000000001 ''rm -rf build''"
  let ?acc = "\<lparr>ag_checks = [], ag_violations = [], ag_evidence = [], ag_approvalChecks = []\<rparr>"
  have calls: "\<And>ts cmd. ev_type (bashCall ts cmd) = ''tool_call''
      \<and> tool_of (bashCall ts cmd) \<in> {Some ''bash'', Some ''write'', Some ''edit'', Some ''task''}
      \<and> timestamp (bashCall ts cmd) = ts"
    by (simp add: bashCall_def toolCall_def tool_of_def noData_def)
  have a1: "?a \<in> set ?A" by simp
  have a4: "(\<forall>e \<in> set ?A. validTimeValue (timestamp e))
        \<and> (\<exists>m \<in> set ?A. isAssistantMessage m \<and> timestamp m < timestamp ?a
                \<and> containsApprovalLanguage (message_text m))"
    by code_simp
  have b1: "?b \<in> set ?B" by simp
  have b4: "(\<forall>e \<in> set ?B. validTimeValue (timestamp e))
        \<and> \<not> (\<exists>m \<in> set ?B. isAssistantMessage m \<and> timestamp m < timestamp ?b
                \<and> containsApprovalLanguage (message_text m))
        \<and> \<not> shouldSkipApproval (getUserMessages ?B)"
    by code_simp
  have b5: "getExecutionTools ?B = ?B" by code_simp
  have z1: "?z \<in> set [?z]" by simp
  have z2: "\<not> validTimeValue (timestamp ?z)" by code_simp
  from approval_gate_per_call[OF a1, of False 1 ?acc] calls[of 5 "''npm install''"] a4
  obtain r where ra: "approvalGate_evaluate ?A = Inr r"
    and na: "\<forall>v \<in> set (violations r). v_timestamp v \<noteq> 5"
    by auto
  from approval_gate_per_call[OF b1, of False 1 ?acc] calls[of 5 "''rm -rf build''"] b4
  obtain r' where rb: "approvalGate_evaluate ?B = Inr r'"
    and fb: "filter (\<lambda>v. v_timestamp v = 5) (violations r')
                   = map missingApprovalViolation (filter (\<lambda>e. timestamp e = 5) (getExecutionTools ?B))"
    and tb: "v_type (missingApprovalViolation ?b) = ''missing-approval''
         \<and> v_severity (missingApprovalViolation ?b) = Error
         \<and> v_timestamp (missingApprovalViolation ?b) = 5"
    by auto
  have all5: "violations r' = filter (\<lambda>v. v_timestamp v = 5) (violations r')"
    using approvalGate_violations[OF rb] calls[of 5 "''rm -rf build''"]
    by (simp add: b5 missingApprovalViolation_fields)
  from fb all5 calls[of 5 "''rm -rf build''"] have vb: "violations r' = [missingApprovalViolation ?b]"
    by (simp add: b5)
  from approval_gate_per_call[OF z1, of False 1 ?acc] calls[of 8640000000000001 "''rm -rf build''"] z2
  have zz: "approvalGate_evaluate [?z] = Inl RangeError" by simp
  from ra na rb vb tb zz show ?thesis by simp
qed

section \<open>Results: the Delegation evaluator\<close>



lemma setAdd_set: "set (setAdd fs f) = insert f (set fs)"
  by (auto simp add: setAdd_def)






lemma affectedPath_fold_set:
  "set (foldl affectedPathStep fs calls) =
     set fs \<union> {p. p \<noteq> [] \<and> (\<exists>c \<in> set calls. \<exists>inp. input_of c = Some inp
                     \<and> (i_filePath inp = Some p \<or> i_path inp = Some p))}"
proof (induction calls arbitrary: fs)
  case Nil
  then show ?case by simp
next
  case (Cons c calls)
  have step: "set (affectedPathStep fs c) =
      set fs \<union> {p. p \<noteq> [] \<and> (\<exists>inp. input_of c = Some inp
                     \<and> (i_filePath inp = Some p \<or> i_path inp = Some p))}"
    by (auto simp add: affectedPathStep_def addIfTruthy_def setAdd_set truthy_def or_empty_def
          split: option.splits)
  show ?case
    unfolding foldl_Cons Cons.IH step by auto
qed



section \<open>Results: the Context-Loading evaluator\<close>

lemma contextRead_fold_set:
  "set (foldl contextReadStep acc rs) =
     set acc \<union> (\<lambda>r. \<lparr>cr_filePath = or_empty (readFilePath r), cr_timestamp = timestamp r\<rparr>)
                 ` {r \<in> set rs. isContextRead r}"
  by (induction rs arbitrary: acc) (auto simp add: contextReadStep_def)

lemma findContextReads_set:
  "set (findContextReads rs) =
     (\<lambda>r. \<lparr>cr_filePath = or_empty (readFilePath r), cr_timestamp = timestamp r\<rparr>)
       ` {r \<in> set rs. isContextRead r}"
  by (simp add: findContextReads_def contextRead_fold_set)

lemma findContextReads_empty:
  "(findContextReads rs = []) = (\<forall>r \<in> set rs. \<not> isContextRead r)"
proof -
  have "(findContextReads rs = []) = (set (findContextReads rs) = {})" by simp
  also have "\<dots> = (\<forall>r \<in> set rs. \<not> isContextRead r)"
    unfolding findContextReads_set by auto
  finally show ?thesis .
qed

lemma wasContextLoadedBefore_iff:
  "wasContextLoadedBefore (findContextReads rs) ts =
     (\<exists>r \<in> set rs. isContextRead r \<and> timestamp r < ts)"
  unfolding wasContextLoadedBefore_def list_ex_iff findContextReads_set by auto

lemma contextFold_Inr:
  "(foldE (contextStep reads) st es = Inr st') =
     ((\<forall>e \<in> set es. validTimeValue (timestamp e))
      \<and> st' = (fst st \<and> list_all (\<lambda>e. wasContextLoadedBefore reads (timestamp e)) es,
               snd st @ map (\<lambda>e. wasContextLoadedBefore reads (timestamp e)) es))"
proof (induction es arbitrary: st)
  case Nil
  then show ?case by auto
next
  case (Cons e es)
  show ?case
  proof (cases "validTimeValue (timestamp e)")
    case True
    then have "contextStep reads st e =
        Inr (if \<not> wasContextLoadedBefore reads (timestamp e) then False else fst st,
             snd st @ [wasContextLoadedBefore reads (timestamp e)])"
      by (simp add: contextStep_def Let_def bindE_def toISOString_def)
    with True Cons.IH show ?thesis by auto
  next
    case False
    then have "contextStep reads st e = Inl RangeError"
      by (simp add: contextStep_def Let_def bindE_def toISOString_def)
    with False show ?thesis by simp
  qed
qed

lemma contextLoop_Inr:
  "(contextLoop reads es = Inr st) =
     ((\<forall>e \<in> set es. validTimeValue (timestamp e))
      \<and> st = (list_all (\<lambda>e. wasContextLoadedBefore reads (timestamp e)) es,
              map (\<lambda>e. wasContextLoadedBefore reads (timestamp e)) es))"
  by (simp add: contextLoop_def contextFold_Inr)

lemma formatAll_Inr:
  "(foldE (\<lambda>_ r. toISOString (cr_timestamp r)) () reads = Inr u) =
     (\<forall>r \<in> set reads. validTimeValue (cr_timestamp r))"
  by (induction reads) (auto simp add: toISOString_def)

lemma checkEvidenceDates_Inr:
  "(checkEvidenceDates reads first = Inr u) =
     (if reads = [] then validTimeValue (timestamp first)
      else \<forall>r \<in> set reads. validTimeValue (cr_timestamp r))"
  by (simp add: checkEvidenceDates_def formatAll_Inr toISOString_Inr)

lemma requiresContext_in_execution_tools:
  "x \<in> set T \<Longrightarrow> ev_type x = ''tool_call'' \<Longrightarrow>
   tool_of x \<in> {Some ''write'', Some ''edit'', Some ''task''} \<Longrightarrow>
   x \<in> set (getExecutionTools T) \<and> requiresContext x"
  by (auto simp add: getExecutionTools_def getToolCalls_def isExecutionTool_def
        executionToolNames_def requiresContext_def)

lemma not_bash_only:
  "x \<in> set es \<Longrightarrow> requiresContext x \<Longrightarrow> \<not> isBashOnlyTask es"
  by (auto simp add: isBashOnlyTask_def Let_def list_ex_iff)

lemma contextLoading_violations:
  assumes "getExecutionTools T = first # rest" and "\<not> isBashOnlyTask (first # rest)"
    and "contextLoading_evaluate T = Inr r"
  shows "violations r =
     (if \<forall>r \<in> set (getReadTools T). \<not> isContextRead r
      then [createViolation ''no-context-loaded'' Warning
              ''Task execution started without loading any context files'' (timestamp first)]
      else if \<exists>e \<in> set (first # rest). requiresContext e \<and>
                 \<not> (\<exists>r \<in> set (getReadTools T). isContextRead r \<and> timestamp r < timestamp e)
      then [createViolation ''context-loaded-after-execution'' Warning
              ''Some executions happened before context was loaded'' (timestamp first)]
      else [])"
proof -
  have e: "(length (findContextReads (getReadTools T)) > 0)
             = (\<not> (\<forall>r \<in> set (getReadTools T). \<not> isContextRead r))"
    using findContextReads_empty[of "getReadTools T"] by auto
  have a: "list_all (\<lambda>e. wasContextLoadedBefore (findContextReads (getReadTools T)) (timestamp e))
             (filter requiresContext (first # rest))
      = (\<not> (\<exists>e \<in> set (first # rest). requiresContext e \<and>
                 \<not> (\<exists>r \<in> set (getReadTools T). isContextRead r \<and> timestamp r < timestamp e)))"
    unfolding list_all_iff wasContextLoadedBefore_iff by auto
  from assms(3) have "violations r =
     (if \<not> (length (findContextReads (getReadTools T)) > 0)
      then [createViolation ''no-context-loaded'' Warning
              ''Task execution started without loading any context files'' (timestamp first)]
      else if \<not> list_all (\<lambda>e. wasContextLoadedBefore (findContextReads (getReadTools T))
                                 (timestamp e))
                  (filter requiresContext (first # rest))
      then [createViolation ''context-loaded-after-execution'' Warning
              ''Some executions happened before context was loaded'' (timestamp first)]
      else [])"
    unfolding contextLoading_evaluate_def assms(1) list.case Let_def
    using assms(2)
    by (auto simp add: bindE_Inr contextLoop_Inr buildResult_violations simp del: filter.simps)
  then show ?thesis unfolding e a by simp
qed

lemma contextLoading_returns:
  assumes "\<forall>e \<in> set T. validTimeValue (timestamp e)"
  shows "\<exists>r. contextLoading_evaluate T = Inr r"
proof (cases "getExecutionTools T")
  case Nil
  then show ?thesis by (simp add: contextLoading_evaluate_def)
next
  case (Cons first rest)
  have sub: "set (getExecutionTools T) \<subseteq> set T"
    by (auto simp add: getExecutionTools_def getToolCalls_def)
  with Cons assms have vf: "validTimeValue (timestamp first)"
    and vr: "\<forall>e \<in> set rest. validTimeValue (timestamp e)" by auto
  have "\<forall>r \<in> set (findContextReads (getReadTools T)). validTimeValue (cr_timestamp r)"
    unfolding findContextReads_set using assms
    by (auto simp add: getReadTools_def getToolCalls_def)
  with vf have d: "checkEvidenceDates (findContextReads (getReadTools T)) first = Inr ()"
    by (simp add: checkEvidenceDates_Inr)
  have l: "\<exists>st. contextLoop (findContextReads (getReadTools T))
               (filter requiresContext (first # rest)) = Inr st"
    using vf vr by (simp add: contextLoop_Inr)
  from l d show ?thesis
    unfolding contextLoading_evaluate_def Cons list.case Let_def
    by (auto simp add: bindE_def simp del: filter.simps)
qed

lemma contextLoading_throws:
  assumes "x \<in> set (getExecutionTools T)" and "requiresContext x"
    and "\<not> validTimeValue (timestamp x)"
  shows "contextLoading_evaluate T = Inl RangeError"
proof (cases "contextLoading_evaluate T")
  case (Inl e)
  then show ?thesis by (simp add: only_RangeError)
next
  case (Inr r)
  from assms(1) obtain first rest where fr: "getExecutionTools T = first # rest"
    by (cases "getExecutionTools T") auto
  have nb: "\<not> isBashOnlyTask (first # rest)"
    using not_bash_only[of x "first # rest"] assms(1,2) fr by simp
  from Inr have "\<forall>e \<in> set (filter requiresContext (first # rest)). validTimeValue (timestamp e)"
    unfolding contextLoading_evaluate_def fr list.case Let_def
    using nb by (auto simp add: bindE_Inr contextLoop_Inr simp del: filter.simps)
  with assms fr show ?thesis by auto
qed

text \<open>
  C8.  On a timeline with a write, edit or task call, and with timestamps that are time
  values, the evaluator returns a result: if no read-type call reads a context file, its
  only violation is one \<open>no-context-loaded\<close> warning; if some context read exists but some
  write, edit or task call has no context read with an earlier timestamp, its only
  violation is one \<open>context-loaded-after-execution\<close> warning; if every such call has an
  earlier context read there is no violation.  The two warnings never occur together.
  When the timestamp of a write, edit or task call is not a time value, the evaluator
  throws a \<open>RangeError\<close> and returns nothing.
\<close>

theorem context_loading_warnings:
  assumes "x \<in> set T" and "ev_type x = ''tool_call''"
    and "tool_of x \<in> {Some ''write'', Some ''edit'', Some ''task''}"
  shows "((\<forall>e \<in> set T. validTimeValue (timestamp e)) \<longrightarrow>
     (\<exists>r first rest. contextLoading_evaluate T = Inr r \<and> getExecutionTools T = first # rest
     \<and> ((\<forall>r \<in> set (getReadTools T). \<not> isContextRead r) \<longrightarrow>
          violations r =
            [createViolation ''no-context-loaded'' Warning
               ''Task execution started without loading any context files'' (timestamp first)])
     \<and> ((\<exists>r \<in> set (getReadTools T). isContextRead r)
          \<and> (\<exists>e \<in> set (getExecutionTools T). requiresContext e \<and>
                 \<not> (\<exists>r \<in> set (getReadTools T). isContextRead r \<and> timestamp r < timestamp e))
          \<longrightarrow>
          violations r =
            [createViolation ''context-loaded-after-execution'' Warning
               ''Some executions happened before context was loaded'' (timestamp first)])
     \<and> ((\<exists>r \<in> set (getReadTools T). isContextRead r)
          \<and> (\<forall>e \<in> set (getExecutionTools T). requiresContext e \<longrightarrow>
                 (\<exists>r \<in> set (getReadTools T). isContextRead r \<and> timestamp r < timestamp e))
          \<longrightarrow> violations r = [])
     \<and> \<not> ((\<exists>v \<in> set (violations r). v_type v = ''no-context-loaded'')
          \<and> (\<exists>v \<in> set (violations r). v_type v = ''context-loaded-after-execution''))))
   \<and> (\<not> validTimeValue (timestamp x) \<longrightarrow> contextLoading_evaluate T = Inl RangeError)"
proof (intro conjI impI)
  from requiresContext_in_execution_tools[OF assms]
  have m: "x \<in> set (getExecutionTools T)" and rq: "requiresContext x" by simp_all
  {
    assume "\<not> validTimeValue (timestamp x)"
    with contextLoading_throws[OF m rq]
    show "contextLoading_evaluate T = Inl RangeError" by simp
  }
  assume valid: "\<forall>e \<in> set T. validTimeValue (timestamp e)"
  then obtain r where r: "contextLoading_evaluate T = Inr r"
    using contextLoading_returns by blast
  from m obtain first rest where fr: "getExecutionTools T = first # rest"
    by (cases "getExecutionTools T") auto
  have nb: "\<not> isBashOnlyTask (first # rest)"
    using not_bash_only[of x "first # rest"] m rq fr by simp
  note v = contextLoading_violations[OF fr nb r]
  show "\<exists>r first rest. contextLoading_evaluate T = Inr r \<and> getExecutionTools T = first # rest
     \<and> ((\<forall>r \<in> set (getReadTools T). \<not> isContextRead r) \<longrightarrow>
          violations r =
            [createViolation ''no-context-loaded'' Warning
               ''Task execution started without loading any context files'' (timestamp first)])
     \<and> ((\<exists>r \<in> set (getReadTools T). isContextRead r)
          \<and> (\<exists>e \<in> set (getExecutionTools T). requiresContext e \<and>
                 \<not> (\<exists>r \<in> set (getReadTools T). isContextRead r \<and> timestamp r < timestamp e))
          \<longrightarrow>
          violations r =
            [createViolation ''context-loaded-after-execution'' Warning
               ''Some executions happened before context was loaded'' (timestamp first)])
     \<and> ((\<exists>r \<in> set (getReadTools T). isContextRead r)
          \<and> (\<forall>e \<in> set (getExecutionTools T). requiresContext e \<longrightarrow>
                 (\<exists>r \<in> set (getReadTools T). isContextRead r \<and> timestamp r < timestamp e))
          \<longrightarrow> violations r = [])
     \<and> \<not> ((\<exists>v \<in> set (violations r). v_type v = ''no-context-loaded'')
          \<and> (\<exists>v \<in> set (violations r). v_type v = ''context-loaded-after-execution''))"
    apply (rule exI[of _ r], rule exI[of _ first], rule exI[of _ rest])
    unfolding v fr
    using r fr by (auto simp add: createViolation_def)
qed

theorem context_loading_warnings_witness:
  "map_sum id violations (contextLoading_evaluate [fileCall 2 ''write'' ''/project/out.ts'']) =
     Inr [createViolation ''no-context-loaded'' Warning
        ''Task execution started without loading any context files'' 2]
   \<and> map_sum id violations (contextLoading_evaluate
        [fileCall 1 ''write'' ''/a.ts'', fileCall 2 ''read'' ''docs/guide.md'',
         fileCall 3 ''edit'' ''/a.ts'']) =
     Inr [createViolation ''context-loaded-after-execution'' Warning
        ''Some executions happened before context was loaded'' 1]
   \<and> map_sum id violations (contextLoading_evaluate
        [fileCall 1 ''read'' ''docs/guide.md'', fileCall 2 ''write'' ''/a.ts'']) = Inr []
   \<and> contextLoading_evaluate [fileCall 8640000000000001 ''write'' ''/a.ts''] = Inl RangeError"
proof -
  let ?w = "fileCall 2 ''write'' ''/project/out.ts''"
  let ?T1 = "[?w]"
  let ?x = "fileCall 1 ''write'' ''/a.ts''"
  let ?T2 = "[?x, fileCall 2 ''read'' ''docs/guide.md'', fileCall 3 ''edit'' ''/a.ts'']"
  let ?y = "fileCall 2 ''write'' ''/a.ts''"
  let ?T3 = "[fileCall 1 ''read'' ''docs/guide.md'', ?y]"
  let ?z = "fileCall 8640000000000001 ''write'' ''/a.ts''"
  have tool: "\<And>ts p. ev_type (fileCall ts ''write'' p) = ''tool_call''
      \<and> tool_of (fileCall ts ''write'' p) \<in> {Some ''write'', Some ''edit'', Some ''task''}
      \<and> timestamp (fileCall ts ''write'' p) = ts"
    by (simp add: fileCall_def toolCall_def tool_of_def noData_def)
  have e1: "getExecutionTools ?T1 = [?w]" by code_simp
  have h1: "(\<forall>e \<in> set ?T1. validTimeValue (timestamp e))
          \<and> (\<forall>r \<in> set (getReadTools ?T1). \<not> isContextRead r)" by code_simp
  have e2: "getExecutionTools ?T2 = [?x, fileCall 3 ''edit'' ''/a.ts'']" by code_simp
  have h2: "(\<forall>e \<in> set ?T2. validTimeValue (timestamp e))
          \<and> (\<exists>r \<in> set (getReadTools ?T2). isContextRead r)
          \<and> (\<exists>e \<in> set (getExecutionTools ?T2). requiresContext e \<and>
                 \<not> (\<exists>r \<in> set (getReadTools ?T2). isContextRead r \<and> timestamp r < timestamp e))"
    by code_simp
  have e3: "getExecutionTools ?T3 = [?y]" by code_simp
  have h3: "(\<forall>e \<in> set ?T3. validTimeValue (timestamp e))
          \<and> (\<exists>r \<in> set (getReadTools ?T3). isContextRead r)
          \<and> (\<forall>e \<in> set (getExecutionTools ?T3). requiresContext e \<longrightarrow>
                 (\<exists>r \<in> set (getReadTools ?T3). isContextRead r \<and> timestamp r < timestamp e))"
    by code_simp
  have hz: "\<not> validTimeValue (timestamp ?z)" by code_simp
  have A: "map_sum id violations (contextLoading_evaluate ?T1) =
     Inr [createViolation ''no-context-loaded'' Warning
        ''Task execution started without loading any context files'' 2]"
    using context_loading_warnings[of ?w ?T1] tool[of 2 "''/project/out.ts''"] h1
    unfolding e1 by auto
  have B: "map_sum id violations (contextLoading_evaluate ?T2) =
     Inr [createViolation ''context-loaded-after-execution'' Warning
        ''Some executions happened before context was loaded'' 1]"
    using context_loading_warnings[of ?x ?T2] tool[of 1 "''/a.ts''"] h2
    unfolding e2 by auto
  have C: "map_sum id violations (contextLoading_evaluate ?T3) = Inr []"
    using context_loading_warnings[of ?y ?T3] tool[of 2 "''/a.ts''"] h3
    unfolding e3 by auto
  have Z: "contextLoading_evaluate [?z] = Inl RangeError"
    using context_loading_warnings[of ?z "[?z]"] tool[of 8640000000000001 "''/a.ts''"] hz
    by simp
  from A B C Z show ?thesis by simp
qed

section \<open>Results: trailing events\<close>

lemma getExecutionTools_append:
  "getExecutionTools (T @ A) = getExecutionTools T @ getExecutionTools A"
  by (simp add: getExecutionTools_def getToolCalls_def)

lemma getReadTools_append: "getReadTools (T @ A) = getReadTools T @ getReadTools A"
  by (simp add: getReadTools_def getToolCalls_def)

lemma shouldSkipApproval_append:
  "shouldSkipApproval (getUserMessages (T @ A)) =
     (shouldSkipApproval (getUserMessages T) \<or> shouldSkipApproval (getUserMessages A))"
  by (auto simp add: shouldSkipApproval_def getUserMessages_def list_ex_iff)

lemma checkApprovalForTool_append:
  assumes "\<forall>a \<in> set A. timestamp c < timestamp a"
  shows "checkApprovalForTool c (T @ A) s = checkApprovalForTool c T s'"
proof -
  have "getEventsBefore A (timestamp c) = []"
    using assms by (auto simp add: getEventsBefore_def filter_empty_conv)
  then have "getEventsBefore (T @ A) (timestamp c) = getEventsBefore T (timestamp c)"
    by (simp add: getEventsBefore_def)
  then show ?thesis by (simp add: checkApprovalForTool_def)
qed

lemma approved_before_append:
  assumes "\<forall>a \<in> set A. timestamp c < timestamp a"
  shows "(\<exists>m \<in> set (T @ A). isAssistantMessage m \<and> timestamp m < timestamp c
              \<and> containsApprovalLanguage (message_text m))
       = (\<exists>m \<in> set T. isAssistantMessage m \<and> timestamp m < timestamp c
              \<and> containsApprovalLanguage (message_text m))"
  using assms by fastforce

lemma wasContextLoadedBefore_append:
  assumes "\<forall>a \<in> set A. ts < timestamp a"
  shows "wasContextLoadedBefore (findContextReads (getReadTools (T @ A))) ts
       = wasContextLoadedBefore (findContextReads (getReadTools T)) ts"
proof -
  have "\<forall>a \<in> set (getReadTools A). \<not> timestamp a < ts"
    using assms by (auto simp add: getReadTools_def getToolCalls_def)
  then show ?thesis
    unfolding wasContextLoadedBefore_iff getReadTools_append by auto
qed

text \<open>
  C9 (amended).  Let the events \<open>A\<close> appended to \<open>T\<close> all have timestamps after every risky
  call of \<open>T\<close>.  Then for the risky calls of \<open>T\<close> the per-call findings on \<open>T @ A\<close> are those
  on \<open>T\<close>: the approval check of each call is the same, also where it throws; whenever the
  Approval-Gate's loop on \<open>T @ A\<close> returns, so does the loop on \<open>T\<close>, with the same approval
  checks for the calls of \<open>T\<close>, and likewise for the Context-Loading evaluator's "context
  read before this call" of each write, edit or task call.  The Approval-Gate's per-call
  pass or fail is also the same, provided \<open>A\<close> brings no user message with a skip directive
  that \<open>T\<close> did not already have.  Both loops return when all timestamps are time values.
\<close>

theorem trailing_events_per_call:
  assumes "\<forall>a \<in> set A. \<forall>c \<in> set (getExecutionTools T). timestamp c < timestamp a"
  shows "(\<forall>c \<in> set (getExecutionTools T).
            checkApprovalForTool c (T @ A) s = checkApprovalForTool c T s')
       \<and> (approvalLoop (T @ A) = Inr acc' \<longrightarrow>
            (\<exists>acc. approvalLoop T = Inr acc
               \<and> take (length (getExecutionTools T)) (ag_approvalChecks acc')
                   = ag_approvalChecks acc
               \<and> ((shouldSkipApproval (getUserMessages A)
                       \<longrightarrow> shouldSkipApproval (getUserMessages T))
                    \<longrightarrow> map c_passed (take (length (getExecutionTools T)) (ag_checks acc'))
                          = map c_passed (ag_checks acc))))
       \<and> (contextLoop (findContextReads (getReadTools (T @ A)))
              (filter requiresContext (getExecutionTools (T @ A))) = Inr st' \<longrightarrow>
            (\<exists>st. contextLoop (findContextReads (getReadTools T))
                     (filter requiresContext (getExecutionTools T)) = Inr st
               \<and> take (length (filter requiresContext (getExecutionTools T))) (snd st')
                   = snd st))
       \<and> ((\<forall>e \<in> set (T @ A). validTimeValue (timestamp e)) \<longrightarrow>
            (\<exists>acc'. approvalLoop (T @ A) = Inr acc')
            \<and> (\<exists>st'. contextLoop (findContextReads (getReadTools (T @ A)))
                  (filter requiresContext (getExecutionTools (T @ A))) = Inr st'))"
proof (intro conjI impI ballI)
  have same: "\<And>c s s'. c \<in> set (getExecutionTools T) \<Longrightarrow>
      checkApprovalForTool c (T @ A) s = checkApprovalForTool c T s'"
    using assms by (intro checkApprovalForTool_append) auto
  show "checkApprovalForTool c (T @ A) s = checkApprovalForTool c T s'"
    if "c \<in> set (getExecutionTools T)" for c
    using same[OF that] .
  show "\<exists>acc. approvalLoop T = Inr acc
               \<and> take (length (getExecutionTools T)) (ag_approvalChecks acc')
                   = ag_approvalChecks acc
               \<and> ((shouldSkipApproval (getUserMessages A)
                       \<longrightarrow> shouldSkipApproval (getUserMessages T))
                    \<longrightarrow> map c_passed (take (length (getExecutionTools T)) (ag_checks acc'))
                          = map c_passed (ag_checks acc))"
    if run: "approvalLoop (T @ A) = Inr acc'"
  proof -
    let ?sTA = "shouldSkipApproval (getUserMessages (T @ A))"
    let ?sT = "shouldSkipApproval (getUserMessages T)"
    note f' = approvalFold_Inr[OF run[unfolded approvalLoop_def Let_def]]
    from run have "\<forall>c \<in> set (getExecutionTools (T @ A)).
        \<exists>chk. checkApprovalForTool c (T @ A) ?sTA = Inr chk"
      unfolding approvalLoop_def Let_def using approvalFold_returns by blast
    then have "\<forall>c \<in> set (getExecutionTools T). \<exists>chk. checkApprovalForTool c T ?sT = Inr chk"
    proof (intro ballI)
      fix c assume c: "c \<in> set (getExecutionTools T)"
      assume "\<forall>c \<in> set (getExecutionTools (T @ A)).
        \<exists>chk. checkApprovalForTool c (T @ A) ?sTA = Inr chk"
      with c obtain chk where "checkApprovalForTool c (T @ A) ?sTA = Inr chk"
        by (auto simp add: getExecutionTools_append)
      with same[OF c, of ?sTA ?sT] have "checkApprovalForTool c T ?sT = Inr chk"
        by simp
      then show "\<exists>chk. checkApprovalForTool c T ?sT = Inr chk" ..
    qed
    then obtain acc where l: "approvalLoop T = Inr acc"
      unfolding approvalLoop_def Let_def using approvalFold_returns by blast
    note f = approvalFold_Inr[OF l[unfolded approvalLoop_def Let_def]]
    have "map Inr (take (length (getExecutionTools T)) (ag_approvalChecks acc'))
        = (map Inr (ag_approvalChecks acc) :: (js_error + approval_gate_check) list)"
      using f f' same[of _ ?sTA ?sT]
      by (simp add: take_map[symmetric] getExecutionTools_append)
    then have t: "take (length (getExecutionTools T)) (ag_approvalChecks acc')
        = ag_approvalChecks acc"
      by (simp add: inj_map_eq_map)
    have before: "\<And>c. c \<in> set (getExecutionTools T) \<Longrightarrow>
        (\<exists>m \<in> set (T @ A). isAssistantMessage m \<and> timestamp m < timestamp c
              \<and> containsApprovalLanguage (message_text m))
       = (\<exists>m \<in> set T. isAssistantMessage m \<and> timestamp m < timestamp c
              \<and> containsApprovalLanguage (message_text m))"
      using assms by (intro approved_before_append) auto
    have p: "map c_passed (take (length (getExecutionTools T)) (ag_checks acc'))
                          = map c_passed (ag_checks acc)"
      if "shouldSkipApproval (getUserMessages A) \<longrightarrow> ?sT"
    proof -
      from that have sk: "?sTA = ?sT" by (auto simp add: shouldSkipApproval_append)
      show ?thesis
        using f f' before unfolding sk
        by (simp add: take_map[symmetric] getExecutionTools_append del: set_append)
    qed
    from l t p show ?thesis by blast
  qed
  have ctx: "\<And>c. c \<in> set (getExecutionTools T) \<Longrightarrow>
      wasContextLoadedBefore (findContextReads (getReadTools (T @ A))) (timestamp c)
       = wasContextLoadedBefore (findContextReads (getReadTools T)) (timestamp c)"
    using assms by (intro wasContextLoadedBefore_append) auto
  show "\<exists>st. contextLoop (findContextReads (getReadTools T))
                     (filter requiresContext (getExecutionTools T)) = Inr st
               \<and> take (length (filter requiresContext (getExecutionTools T))) (snd st')
                   = snd st"
    if "contextLoop (findContextReads (getReadTools (T @ A)))
              (filter requiresContext (getExecutionTools (T @ A))) = Inr st'"
    using that unfolding contextLoop_Inr getExecutionTools_append
    by (simp add: ctx)
  assume valid: "\<forall>e \<in> set (T @ A). validTimeValue (timestamp e)"
  show "\<exists>acc'. approvalLoop (T @ A) = Inr acc'"
    using approvalLoop_returns[OF valid] .
  have "set (getExecutionTools (T @ A)) \<subseteq> set (T @ A)"
    by (auto simp add: getExecutionTools_def getToolCalls_def)
  with valid show "\<exists>st'. contextLoop (findContextReads (getReadTools (T @ A)))
                  (filter requiresContext (getExecutionTools (T @ A))) = Inr st'"
    unfolding contextLoop_Inr by auto
qed

theorem trailing_events_per_call_witness:
  "map_sum id (\<lambda>acc. take 1 (ag_approvalChecks acc)) (approvalLoop
       ([bashCall 5 ''rm -rf build'']
          @ [textEvent 20 ''assistant_message'' ''May I clean up?'',
             fileCall 21 ''read'' ''docs/guide.md'', fileCall 30 ''write'' ''/a.ts'']))
     = map_sum id ag_approvalChecks (approvalLoop [bashCall 5 ''rm -rf build''])
   \<and> map_sum id (\<lambda>acc. map c_passed (take 1 (ag_checks acc))) (approvalLoop
       ([bashCall 5 ''rm -rf build'']
          @ [textEvent 20 ''assistant_message'' ''May I clean up?'',
             fileCall 21 ''read'' ''docs/guide.md'', fileCall 30 ''write'' ''/a.ts'']))
     = Inr [False]
   \<and> map_sum id (\<lambda>acc. map c_passed (ag_checks acc)) (approvalLoop
       ([bashCall 5 ''rm -rf build'']
          @ [textEvent 20 ''assistant_message'' ''May I clean up?'',
             fileCall 21 ''read'' ''docs/guide.md'', fileCall 30 ''write'' ''/a.ts'']))
     = Inr [False, True]"
proof -
  let ?T = "[bashCall 5 ''rm -rf build'']"
  let ?A = "[textEvent 20 ''assistant_message'' ''May I clean up?'',
             fileCall 21 ''read'' ''docs/guide.md'', fileCall 30 ''write'' ''/a.ts'']"
  have h: "\<forall>a \<in> set ?A. \<forall>c \<in> set (getExecutionTools ?T). timestamp c < timestamp a"
    by code_simp
  have n: "length (getExecutionTools ?T) = 1" by code_simp
  have s: "\<not> shouldSkipApproval (getUserMessages ?A)" by code_simp
  have r: "approvalLoop (?T @ ?A) = Inr (projr (approvalLoop (?T @ ?A)))" by code_simp
  have p: "map_sum id (\<lambda>acc. map c_passed (ag_checks acc)) (approvalLoop ?T) = Inr [False]"
    by code_simp
  have q: "map c_passed (ag_checks (projr (approvalLoop (?T @ ?A)))) = [False, True]"
    by code_simp
  from trailing_events_per_call[OF h, of False False "projr (approvalLoop (?T @ ?A))"
         "projr (contextLoop (findContextReads (getReadTools (?T @ ?A)))
              (filter requiresContext (getExecutionTools (?T @ ?A))))"] r s
  obtain acc where a: "approvalLoop ?T = Inr acc"
    and t: "take (length (getExecutionTools ?T)) (ag_approvalChecks (projr (approvalLoop (?T @ ?A))))
              = ag_approvalChecks acc"
    and c: "map c_passed (take (length (getExecutionTools ?T))
              (ag_checks (projr (approvalLoop (?T @ ?A))))) = map c_passed (ag_checks acc)"
    by auto
  from p a have pa: "map c_passed (ag_checks acc) = [False]" by simp
  have 1: "map_sum id (\<lambda>acc. take 1 (ag_approvalChecks acc)) (approvalLoop (?T @ ?A))
     = map_sum id ag_approvalChecks (approvalLoop ?T)"
    using t n by (subst r, subst a) simp
  have 2: "map_sum id (\<lambda>acc. map c_passed (take 1 (ag_checks acc))) (approvalLoop (?T @ ?A))
     = Inr [False]"
    using c n pa by (subst r) simp
  have 3: "map_sum id (\<lambda>acc. map c_passed (ag_checks acc)) (approvalLoop (?T @ ?A))
     = Inr [False, True]"
    using q by (subst r) simp
  from 1 2 3 show ?thesis by simp
qed

text \<open>
  C9 as stated fails: a user message "just do it" appended after the only risky call turns
  the failed check of that call into a passed one and removes its violation, because the
  skip directive is looked for in all user messages of the timeline.
\<close>

theorem trailing_skip_changes_verdict:
  "timestamp (bashCall 10 ''rm -rf build'')
     < timestamp (textEvent 20 ''user_message'' ''just do it'')
   \<and> getExecutionTools [bashCall 10 ''rm -rf build''] = [bashCall 10 ''rm -rf build'']
   \<and> map_sum id (\<lambda>acc. map c_passed (ag_checks acc))
        (approvalLoop [bashCall 10 ''rm -rf build'']) = Inr [False]
   \<and> map_sum id (\<lambda>acc. map c_passed (ag_checks acc)) (approvalLoop
        ([bashCall 10 ''rm -rf build''] @ [textEvent 20 ''user_message'' ''just do it'']))
       = Inr [True]
   \<and> map_sum id violations (approvalGate_evaluate [bashCall 10 ''rm -rf build''])
       = Inr [missingApprovalViolation (bashCall 10 ''rm -rf build'')]
   \<and> map_sum id violations (approvalGate_evaluate
        ([bashCall 10 ''rm -rf build''] @ [textEvent 20 ''user_message'' ''just do it'']))
       = Inr []"
  by code_simp

section \<open>Results: permission requests\<close>

lemma handlePermission_returns:
  assumes "se_type ev = ''permission.request''" and "h ev (handlerState st) = (Inr approved, s')"
  shows "issued (handlePermission (Some h) post ev st) =
           issued st @ [\<lparr>rc_id = sessionId (se_properties ev),
                          rc_permissionID = permissionId (se_properties ev),
                          rc_response = (if approved then ''once'' else ''reject'')\<rparr>]"
  using assms by (simp add: handlePermission_def Let_def split: option.splits)

lemma handlePermission_throws:
  assumes "se_type ev = ''permission.request''" and "h ev (handlerState st) = (Inl err, s')"
  shows "issued (handlePermission (Some h) post ev st) = issued st
       \<and> errorLog (handlePermission (Some h) post ev st) = errorLog st @ [err]
       \<and> isListening (handlePermission (Some h) post ev st) = isListening st"
  using assms by (simp add: handlePermission_def)

lemma runHandler_issued: "issued (runHandler ev st h) = issued st"
  by (simp add: runHandler_def split: prod.splits option.splits)

lemma runHandlers_issued: "issued (foldl (runHandler ev) st hs) = issued st"
  by (induction hs arbitrary: st) (simp_all add: runHandler_issued)

lemma handleEvent_issued:
  "issued (handleEvent ph post hs ev st) = issued (handlePermission ph post ev st)"
  by (simp add: handleEvent_def runHandlers_issued)

text \<open>
  C2 (amended).  For a \<open>permission.request\<close> event with a permission handler registered:
  when the handler returns a decision, the collector issues exactly one response call for
  that request, \<open>once\<close> for approve and \<open>reject\<close> for deny; when the handler throws, it
  issues no response call and writes the error to the log.  The handler that the executor
  registers throws whenever the approval strategy throws, so a failing policy gets no
  response.
\<close>

theorem permission_response_per_request:
  assumes "se_type ev = ''permission.request''"
  shows "(h ev (handlerState st) = (Inr approved, s') \<longrightarrow>
            issued (handleEvent (Some h) post hs ev st) =
              issued st @ [\<lparr>rc_id = sessionId (se_properties ev),
                             rc_permissionID = permissionId (se_properties ev),
                             rc_response = (if approved then ''once'' else ''reject'')\<rparr>])
       \<and> (h ev (handlerState st) = (Inl err, s') \<longrightarrow>
            issued (handleEvent (Some h) post hs ev st) = issued st
            \<and> errorLog (handlePermission (Some h) post ev st) = errorLog st @ [err])
       \<and> (approvalStrategy (se_properties ev) (snd (handlerState st)) = (Inl err, p') \<longrightarrow>
            issued (handleEvent (Some (executorPermissionHandler approvalStrategy)) post hs ev st)
              = issued st)"
proof (intro conjI impI)
  show "issued (handleEvent (Some h) post hs ev st) =
              issued st @ [\<lparr>rc_id = sessionId (se_properties ev),
                             rc_permissionID = permissionId (se_properties ev),
                             rc_response = (if approved then ''once'' else ''reject'')\<rparr>]"
    if "h ev (handlerState st) = (Inr approved, s')"
    using handlePermission_returns[where h=h and post=post, OF assms that]
    by (simp add: handleEvent_issued)
  show "issued (handleEvent (Some h) post hs ev st) = issued st"
    if "h ev (handlerState st) = (Inl err, s')"
    using handlePermission_throws[where h=h and post=post, OF assms that]
    by (simp add: handleEvent_issued)
  show "errorLog (handlePermission (Some h) post ev st) = errorLog st @ [err]"
    if "h ev (handlerState st) = (Inl err, s')"
    using handlePermission_throws[where h=h and post=post, OF assms that] by simp
  show "issued (handleEvent (Some (executorPermissionHandler approvalStrategy)) post hs ev st)
              = issued st"
    if "approvalStrategy (se_properties ev) (snd (handlerState st)) = (Inl err, p')"
  proof -
    have "executorPermissionHandler approvalStrategy ev (handlerState st)
            = (Inl err, (fst (handlerState st), p'))"
      using that by (simp add: executorPermissionHandler_def)
    from handlePermission_throws
           [where h="executorPermissionHandler approvalStrategy" and post=post, OF assms this]
    show ?thesis
      by (simp add: handleEvent_issued)
  qed
qed

theorem permission_response_per_request_witness:
  "issued (handleEvent (Some (executorPermissionHandler smartStrategy)) (\<lambda>call. None) (\<lambda>ty. [])
             permissionRequestEvent (idle (0, newSmartApprovalStrategy sampleConfig)))
     = [\<lparr>rc_id = ''ses_1'', rc_permissionID = ''per_1'', rc_response = ''reject''\<rparr>]
   \<and> issued (handleEvent (Some (executorPermissionHandler throwingStrategy)) (\<lambda>call. None)
             (\<lambda>ty. []) permissionRequestEvent (idle (0, ()))) = []"
proof -
  let ?st = "idle (0::nat, newSmartApprovalStrategy sampleConfig)"
  let ?h = "executorPermissionHandler smartStrategy"
  have t: "se_type permissionRequestEvent = ''permission.request''" by code_simp
  have a: "fst (?h permissionRequestEvent (handlerState ?st)) = Inr False" by code_simp
  have b: "throwingStrategy (se_properties permissionRequestEvent)
             (snd (handlerState (idle (0::nat, ())))) = (Inl ''policy failed'', ())"
    by code_simp
  have i: "issued ?st = [] \<and> issued (idle (0::nat, ())) = []" by (simp add: idle_def)
  have p: "sessionId (se_properties permissionRequestEvent) = ''ses_1''
         \<and> permissionId (se_properties permissionRequestEvent) = ''per_1''"
    by code_simp
  show ?thesis
    using permission_response_per_request
            [OF t, where h = ?h and st = ?st and approved = False
               and s' = "snd (?h permissionRequestEvent (handlerState ?st))"
               and post = "\<lambda>call. None" and hs = "\<lambda>ty. []" and err = "''none''"
               and approvalStrategy = smartStrategy
               and p' = "newSmartApprovalStrategy sampleConfig"]
          permission_response_per_request
            [OF t, where h = "executorPermissionHandler throwingStrategy"
               and st = "idle (0::nat, ())" and approved = False and s' = "(0, ())"
               and post = "\<lambda>call. None" and hs = "\<lambda>ty. []" and err = "''policy failed''"
               and approvalStrategy = throwingStrategy and p' = "()"]
          a b i p
    by (simp add: prod_eq_iff)
qed

text \<open>
  C2 as stated fails: with a policy that throws, the collector handles the
  \<open>permission.request\<close> event without issuing any response call; the number of response
  calls is 0, not 1, and the error is only logged.
\<close>

theorem policy_throws_no_response:
  "se_type permissionRequestEvent = ''permission.request''
   \<and> throwingStrategy (se_properties permissionRequestEvent) () = (Inl ''policy failed'', ())
   \<and> issued (snd (startListening (Some (executorPermissionHandler throwingStrategy))
                (\<lambda>call. None) (\<lambda>ty. []) [Event permissionRequestEvent] (idle (0, ())))) = []
   \<and> length (issued (snd (startListening (Some (executorPermissionHandler throwingStrategy))
                (\<lambda>call. None) (\<lambda>ty. []) [Event permissionRequestEvent] (idle (0, ()))))) \<noteq> 1
   \<and> errorLog (snd (startListening (Some (executorPermissionHandler throwingStrategy))
                (\<lambda>call. None) (\<lambda>ty. []) [Event permissionRequestEvent] (idle (0, ()))))
       = [''policy failed'']"
  by code_simp

section \<open>Results: the smart timeout\<close>

lemma waitLoop_stalledWait:
  assumes "\<forall>n1 n2. Tick n1 n2 \<in> set occs \<longrightarrow> n1 \<le> n2"
    and "isActive st" and "monitorRunning st"
  shows "waitLoop startTime base mx st occs
           = stalledWait startTime base mx (lastActivityTime st) occs"
  using assms
proof (induction occs arbitrary: st)
  case Nil
  then show ?case by simp
next
  case (Cons oc occs)
  from Cons.prems(1) have rest: "\<forall>n1 n2. Tick n1 n2 \<in> set occs \<longrightarrow> n1 \<le> n2" by simp
  show ?case
  proof (cases oc)
    case (Tick n1 n2)
    with Cons.prems(1) have le: "n1 \<le> n2" by simp
    show ?thesis
    proof (cases "n2 - startTime > mx \<or> n1 - lastActivityTime st > base")
      case True
      with le Cons.prems(2,3) show ?thesis
        unfolding Tick
        by (auto simp add: activityMonitor_def checkTimeout_def Let_def)
    next
      case False
      with le have quiet: "activityMonitor startTime base mx n1 st = st"
        by (auto simp add: activityMonitor_def Let_def)
      from False Cons.prems(2) have none: "checkTimeout startTime base mx n2 st = None"
        by (auto simp add: checkTimeout_def Let_def)
      from False show ?thesis
        unfolding Tick
        using Cons.IH[OF rest Cons.prems(2,3)] Cons.prems(3)
        by (simp add: quiet none)
    qed
  next
    case (Activity now)
    have "isActive (st\<lparr>lastActivityTime := now\<rparr>)" "monitorRunning (st\<lparr>lastActivityTime := now\<rparr>)"
      using Cons.prems(2,3) by simp_all
    from Cons.IH[OF rest this] show ?thesis unfolding Activity by simp
  next
    case Resolved
    then show ?thesis by simp
  next
    case (Failed err)
    then show ?thesis by simp
  qed
qed

lemma everySecond_ticks: "Tick n1 n2 \<in> set (everySecond n t period) \<Longrightarrow> n1 \<le> n2"
  by (induction n arbitrary: t) (auto split: if_splits)

text \<open>
  C3.  The two interval timers are started together with the same period and fire one
  after the other; each poll reads the clock (twice, in order).  On every such course of
  the wait, \<open>withSmartTimeout\<close> under \<open>timeout\<close> and \<open>timeout * 2\<close> follows the rule of the
  specification read at each poll: it rejects at the first poll, before the prompt
  settles, at which more than \<open>baseTimeout\<close> has passed since the last event or more than
  \<open>maxTimeout\<close> since the start, and at no other moment.  With 300000 and 600000, polled
  every second: a prompt with an event every 100 s that completes after 550 s completes
  without a timeout, and a prompt silent for 310 s is rejected for inactivity.
\<close>

theorem smart_timeout_rule:
  "((\<forall>n1 n2. Tick n1 n2 \<in> set occs \<longrightarrow> n1 \<le> n2) \<longrightarrow>
      multiTurnWait timeout startTime occs
        = stalledWait startTime timeout (timeout * 2) startTime occs)
   \<and> (n1 \<le> n2 \<longrightarrow>
        (\<exists>k. multiTurnWait timeout startTime [Activity a, Tick n1 n2] = TimedOut k)
          = (n1 - a > timeout \<or> n2 - startTime > timeout * 2))
   \<and> multiTurnWait 300000 0 tricklingPrompt = Completed
   \<and> multiTurnWait 300000 0 silentPrompt = TimedOut NoActivity"
proof (intro conjI impI)
  show "multiTurnWait timeout startTime occs
        = stalledWait startTime timeout (timeout * 2) startTime occs"
    if "\<forall>n1 n2. Tick n1 n2 \<in> set occs \<longrightarrow> n1 \<le> n2"
    unfolding multiTurnWait_def withSmartTimeout_def
    using waitLoop_stalledWait[OF that, of
        "\<lparr>lastActivityTime = startTime, isActive = True, monitorRunning = True\<rparr>"
        startTime timeout "timeout * 2"]
    by simp
  show "(\<exists>k. multiTurnWait timeout startTime [Activity a, Tick n1 n2] = TimedOut k)
          = (n1 - a > timeout \<or> n2 - startTime > timeout * 2)"
    if "n1 \<le> n2"
  proof -
    have "\<forall>m1 m2. Tick m1 m2 \<in> set [Activity a, Tick n1 n2] \<longrightarrow> m1 \<le> m2"
      using that by simp
    from waitLoop_stalledWait[OF this, of
        "\<lparr>lastActivityTime = startTime, isActive = True, monitorRunning = True\<rparr>"
        startTime timeout "timeout * 2"]
    show ?thesis
      unfolding multiTurnWait_def withSmartTimeout_def by auto
  qed
  show "multiTurnWait 300000 0 tricklingPrompt = Completed" by code_simp
  show "multiTurnWait 300000 0 silentPrompt = TimedOut NoActivity" by code_simp
qed

theorem smart_timeout_rule_witness:
  "multiTurnWait 300000 0
     [Tick 1000 1001, Activity 1500, Tick 301000 301002, Tick 302000 302000, Resolved]
     = TimedOut NoActivity
   \<and> multiTurnWait 300000 0
     [Tick 1000 1001, Activity 1500, Tick 301000 301002, Activity 301900, Tick 302000 302000,
      Resolved]
     = Completed
   \<and> (\<exists>k. multiTurnWait 300000 0 [Activity 400000, Tick 601000 601000] = TimedOut k)"
proof -
  let ?o1 = "[Tick 1000 1001, Activity 1500, Tick 301000 301002, Tick 302000 302000, Resolved]"
  let ?o2 = "[Tick 1000 1001, Activity 1500, Tick 301000 301002, Activity 301900,
              Tick 302000 302000, Resolved]"
  have h1: "\<forall>n1 n2. Tick n1 n2 \<in> set ?o1 \<longrightarrow> n1 \<le> n2" by simp
  have h2: "\<forall>n1 n2. Tick n1 n2 \<in> set ?o2 \<longrightarrow> n1 \<le> n2" by simp
  have s1: "stalledWait 0 300000 (300000 * 2) 0 ?o1 = TimedOut NoActivity" by simp
  have s2: "stalledWait 0 300000 (300000 * 2) 0 ?o2 = Completed" by simp
  show ?thesis
    using smart_timeout_rule[of ?o1 300000 0 601000 601000 400000] h1 s1
          smart_timeout_rule[of ?o2 300000 0 601000 601000 400000] h2 s2
    by simp
qed

end
